theory Spec2Isabelle
  imports Main
begin

section \<open>The control skeleton of the DMRG driver \<^verbatim>\<open>Heis_FSA.cpp\<close>\<close>

text \<open>
  The program reads three C++ \<^verbatim>\<open>int\<close>s (\<^verbatim>\<open>m\<close>, \<^verbatim>\<open>numberOfSites\<close>,
  \<^verbatim>\<open>numberOfHalfSweeps\<close>), grows a block in the infinite-system loop and then sweeps.
  The numerical kernels (\<^verbatim>\<open>calculateGroundState\<close>, \<^verbatim>\<open>truncateReducedDM\<close>,
  \<^verbatim>\<open>transformOperator\<close>, \<^verbatim>\<open>reduceM2M2\<close>) and the class \<^verbatim>\<open>BLOCK\<close> live in headers
  that are not part of the source file; the embedding keeps what \<^verbatim>\<open>main\<close> itself decides:
  the integer control variables, the extents every \<^verbatim>\<open>resize\<close> call requests, and the
  sequence of calls to the printer, to the block store and to the truncation routine.

  The contents of the arrays and of the two blocks (with \<^verbatim>\<open>blkS.size\<close>) are not followed.

  C++ \<^verbatim>\<open>int\<close> variables are modelled as \<^typ>\<open>int\<close>. The products \<^verbatim>\<open>2*statesToKeepIFA\<close>,
  \<^verbatim>\<open>2*st\<close>, \<^verbatim>\<open>st *= 2\<close>, \<^verbatim>\<open>4*st\<close> and \<^verbatim>\<open>2*m\<close> are 32-bit products in the source and
  can leave the 32-bit range when \<open>m\<close> is large; they are written with the wrap-around
  \<open>int32\<close>. For \<open>1 \<le> m < 2 ^ 29\<close> every one of them stays in range (lemma
  \<open>isa_products_in_range\<close> below), and the statements that depend on their values carry
  that bound. The counters cannot overflow: \<^verbatim>\<open>sitesInSystem\<close> is at most
  \<^verbatim>\<open>numberOfSites/2 + 1\<close>, \<^verbatim>\<open>result\<close> at most \<open>max 3 numberOfSites\<close>, \<^verbatim>\<open>halfSweep\<close> at most
  \<open>max 0 numberOfHalfSweeps\<close>, \<^verbatim>\<open>truncflag\<close> at most 4. The difference
  \<^verbatim>\<open>numberOfSites-minEnviromentSize\<close> in the guard of the sweep loop is a 32-bit value when
  \<open>numberOfSites \<ge> - (2 ^ 31) + 3\<close>; statements that depend on this guard carry that bound.
\<close>

subsection \<open>32-bit products\<close>

definition int32 :: "int \<Rightarrow> int" where
  \<comment> \<open>What a 32-bit two's-complement \<^verbatim>\<open>int\<close> holds for the arithmetic result \<open>x\<close>: the
      value itself inside the range, wrapped around outside (the behaviour of the compiled
      code; the language leaves signed overflow undefined).\<close>
  "int32 x = (x + 2 ^ 31) mod 2 ^ 32 - 2 ^ 31"

subsection \<open>Integer division as C++ does it\<close>

definition tdiv2 :: "int \<Rightarrow> int" where
  \<comment> \<open>\<^verbatim>\<open>n / 2\<close> on C++ ints truncates towards zero.\<close>
  "tdiv2 n = (if 0 \<le> n then n div 2 else - ((- n) div 2))"

subsection \<open>\<^verbatim>\<open>calculateMinEnviromentSize\<close>\<close>

definition powf_two_ge :: "int \<Rightarrow> int \<Rightarrow> bool" where
  \<comment> \<open>The test \<^verbatim>\<open>powf(2.0,result) >= 2.0*m\<close>. For \<open>3 \<le> result \<le> 127\<close> the single-precision
      power is the exact value \<open>2 ^ result\<close>; from 128 on it is \<open>+infinity\<close>, which is
      above every double. \<^verbatim>\<open>2.0*m\<close> is exact in double precision for a 32-bit \<^verbatim>\<open>m\<close>.\<close>
  "powf_two_ge result m = (if result \<le> 127 then 2 * m \<le> 2 ^ nat result else True)"

function calculateMinEnviromentSize_loop :: "int \<Rightarrow> int \<Rightarrow> int \<Rightarrow> int" where
  "calculateMinEnviromentSize_loop m numberOfSites result =
     (if result < numberOfSites
      then (if powf_two_ge result m then result
            else calculateMinEnviromentSize_loop m numberOfSites (result + 1))
      else result)"
  by pat_completeness auto
termination
  by (relation "measure (\<lambda>(m, numberOfSites, result). nat (numberOfSites - result))") auto

declare calculateMinEnviromentSize_loop.simps [simp del]

definition calculateMinEnviromentSize :: "int \<Rightarrow> int \<Rightarrow> int" where
  \<comment> \<open>The loop counter starts at 3; the \<^verbatim>\<open>double\<close> result is converted back to \<^verbatim>\<open>int\<close>
      at the call site, which is exact for these small values.\<close>
  "calculateMinEnviromentSize m numberOfSites = calculateMinEnviromentSize_loop m numberOfSites 3"

subsection \<open>What \<^verbatim>\<open>main\<close> observes and changes\<close>

datatype array_id =
  TSR | Habcd | Psi | rhoTSR | OO_array | OT_array | HAp | SzB | SmB | SpB | I2st | HAB | SzAB | SmAB | SpAB

datatype out_line =
  EnergyLine int int  \<comment> \<open>\<^verbatim>\<open>printGroundStateEnergy(sitesInLeft, sitesInRight, _)\<close>; the
                         floating-point energy comes from the external solver and is left out\<close>
  | EndOfInfinite     \<comment> \<open>the line \<^verbatim>\<open>End of the infinite system algorithm\<close>\<close>

datatype block_id = BlkS | BlkE

datatype store_event =
  ISAwrite int                \<comment> \<open>\<^verbatim>\<open>blkS.ISAwrite(sitesInSystem)\<close>\<close>
  | FSAread block_id int int  \<comment> \<open>\<^verbatim>\<open>blk.FSAread(sites, sweep)\<close>\<close>
  | FSAwrite int int          \<comment> \<open>\<^verbatim>\<open>blkS.FSAwrite(sitesInSystem, halfSweep)\<close>\<close>

record truncation_call =
  rho_rows :: int   \<comment> \<open>\<^verbatim>\<open>rhoTSR.rows()\<close> when \<^verbatim>\<open>truncateReducedDM\<close> is called\<close>
  requested :: int  \<comment> \<open>its second argument, the number of states to keep\<close>

record dmrg_state =
  st :: int
  sitesInSystem :: int
  truncflag :: int
  statesToKeepIFA :: int
  extents :: "array_id \<Rightarrow> int list"
  resizes :: "(array_id \<times> int list) list"
  printed :: "out_line list"
  store_log :: "store_event list"
  truncations :: "truncation_call list"

definition resize :: "array_id \<Rightarrow> int list \<Rightarrow> dmrg_state \<Rightarrow> dmrg_state" where
  \<comment> \<open>\<^verbatim>\<open>A.resize(...)\<close>: the array takes the requested extents; the call is logged.
      Assigning to an array (\<^verbatim>\<open>A = expr\<close>) leaves its extents as they are.\<close>
  "resize a es s = s\<lparr>extents := (extents s)(a := es), resizes := resizes s @ [(a, es)]\<rparr>"

definition rows :: "array_id \<Rightarrow> dmrg_state \<Rightarrow> int" where
  "rows a s = (case extents s a of [] \<Rightarrow> 0 | e # _ \<Rightarrow> e)"

definition print_line :: "out_line \<Rightarrow> dmrg_state \<Rightarrow> dmrg_state" where
  "print_line l s = s\<lparr>printed := printed s @ [l]\<rparr>"

definition store_call :: "store_event \<Rightarrow> dmrg_state \<Rightarrow> dmrg_state" where
  "store_call e s = s\<lparr>store_log := store_log s @ [e]\<rparr>"

definition truncateReducedDM :: "int \<Rightarrow> dmrg_state \<Rightarrow> dmrg_state" where
  \<comment> \<open>The routine itself is external; the call is recorded with the size of the density
      matrix it receives.\<close>
  "truncateReducedDM keep s =
     s\<lparr>truncations := truncations s @ [\<lparr>rho_rows = rows rhoTSR s, requested = keep\<rparr>]\<rparr>"

definition initial_extents :: "int \<Rightarrow> array_id \<Rightarrow> int list" where
  \<comment> \<open>Declarations before the first loop. \<^verbatim>\<open>HAp\<close>, \<^verbatim>\<open>SzB\<close>, \<^verbatim>\<open>SmB\<close>, \<^verbatim>\<open>SpB\<close> are
      default-constructed; \<^verbatim>\<open>SzAB\<close>, \<^verbatim>\<open>SmAB\<close>, \<^verbatim>\<open>SpAB\<close> take the 4 by 4 result of
      \<^verbatim>\<open>reduceM2M2\<close> on a 2,2,2,2 tensor.\<close>
  "initial_extents m a =
     (case a of
        TSR \<Rightarrow> [2, 2, 2, 2] | Habcd \<Rightarrow> [4, 4, 4, 4] | Psi \<Rightarrow> [4, 4] | rhoTSR \<Rightarrow> [4, 4]
      | OO_array \<Rightarrow> [m, 4] | OT_array \<Rightarrow> [4, m]
      | HAp \<Rightarrow> [] | SzB \<Rightarrow> [] | SmB \<Rightarrow> [] | SpB \<Rightarrow> []
      | I2st \<Rightarrow> [4, 4] | HAB \<Rightarrow> [4, 4] | SzAB \<Rightarrow> [4, 4] | SmAB \<Rightarrow> [4, 4] | SpAB \<Rightarrow> [4, 4])"

definition initial_state :: "int \<Rightarrow> dmrg_state" where
  "initial_state m =
     \<lparr>st = 2, sitesInSystem = 2, truncflag = 0, statesToKeepIFA = 2,
      extents = initial_extents m, resizes = [(HAB, [4, 4])],
      printed = [], store_log = [], truncations = []\<rparr>"

subsection \<open>One pass through the infinite-system loop body\<close>

definition isa_solve :: "int \<Rightarrow> dmrg_state \<Rightarrow> dmrg_state" where
  \<comment> \<open>Superblock, ground state, energy line, the ramp of \<^verbatim>\<open>statesToKeepIFA\<close>.\<close>
  "isa_solve m s =
     (let s = print_line (EnergyLine (sitesInSystem s) (sitesInSystem s)) s
      in s\<lparr>statesToKeepIFA :=
             (if int32 (2 * statesToKeepIFA s) \<le> m then int32 (2 * statesToKeepIFA s)
              else m)\<rparr>)"

definition isa_decide :: "int \<Rightarrow> dmrg_state \<Rightarrow> dmrg_state" where
  \<comment> \<open>\<^verbatim>\<open>if (2*st <= m) st *= 2; else if (truncflag == 0 || truncflag == 3) truncflag++;\<close>\<close>
  "isa_decide m s =
     (if int32 (2 * st s) \<le> m then s\<lparr>st := int32 (st s * 2)\<rparr>
      else if truncflag s = 0 \<or> truncflag s = 3 then s\<lparr>truncflag := truncflag s + 1\<rparr>
      else s)"

definition isa_truncate :: "dmrg_state \<Rightarrow> dmrg_state" where
  \<comment> \<open>Reduced density matrix, truncation matrix, operators in the new basis.\<close>
  "isa_truncate s =
     (let k = statesToKeepIFA s;
          s = resize OO_array [k, rows rhoTSR s] s;
          s = resize OT_array [rows rhoTSR s, k] s;
          s = truncateReducedDM k s;
          s = resize HAp [k, k] s;
          s = resize SzB [k, k] s;
          s = resize SpB [k, k] s
      in resize SmB [k, k] s)"

definition isa_pin :: "int \<Rightarrow> dmrg_state \<Rightarrow> dmrg_state" where
  \<comment> \<open>\<^verbatim>\<open>if (truncflag < 2) { if (truncflag == 1) { truncflag = 2; st = m; } }\<close>\<close>
  "isa_pin m s =
     (if truncflag s < 2 then (if truncflag s = 1 then s\<lparr>truncflag := 2, st := m\<rparr> else s)
      else s)"

definition isa_rebuild :: "dmrg_state \<Rightarrow> dmrg_state" where
  \<comment> \<open>The block Hamiltonian with one more site.\<close>
  "isa_rebuild s =
     (let s = resize TSR [statesToKeepIFA s, 2, statesToKeepIFA s, 2] s
      in resize HAB [int32 (2 * st s), int32 (2 * st s)] s)"

definition isa_next_arrays :: "int \<Rightarrow> dmrg_state \<Rightarrow> dmrg_state" where
  \<comment> \<open>The resizes that follow the choice of the local \<^verbatim>\<open>statesToKeep\<close>.\<close>
  "isa_next_arrays statesToKeep s =
     (let s = resize I2st [statesToKeep, statesToKeep] s;
          s = resize SzAB [int32 (2 * st s), int32 (2 * st s)] s;
          s = resize SpAB [int32 (2 * st s), int32 (2 * st s)] s;
          s = resize SmAB [int32 (2 * st s), int32 (2 * st s)] s;
          s = resize Habcd [int32 (2 * st s), int32 (2 * st s), int32 (2 * st s), int32 (2 * st s)] s;
          s = resize Psi [int32 (2 * st s), int32 (2 * st s)] s
      in resize rhoTSR [int32 (2 * st s), int32 (2 * st s)] s)"

definition isa_operators :: "int \<Rightarrow> dmrg_state \<Rightarrow> dmrg_state" where
  \<comment> \<open>The block guarded by \<^verbatim>\<open>truncflag < 3\<close>: identity, spin operators and the superblock
      arrays for the next pass.\<close>
  "isa_operators m s =
     (if truncflag s < 3 then
        (if truncflag s = 2 then isa_next_arrays (int32 (2 * m)) (s\<lparr>truncflag := 3\<rparr>)
         else isa_next_arrays (int32 (4 * st s)) s)
      else s)"

definition isa_persist :: "dmrg_state \<Rightarrow> dmrg_state" where
  \<comment> \<open>\<^verbatim>\<open>sitesInSystem++; blkS.size = sitesInSystem; blkS.ISAwrite(sitesInSystem);\<close>\<close>
  "isa_persist s =
     (let s = s\<lparr>sitesInSystem := sitesInSystem s + 1\<rparr>
      in store_call (ISAwrite (sitesInSystem s)) s)"

definition isa_step :: "int \<Rightarrow> dmrg_state \<Rightarrow> dmrg_state" where
  "isa_step m s =
     isa_persist (isa_operators m (isa_rebuild (isa_pin m (isa_truncate
       (isa_decide m (isa_solve m s))))))"

function infinite_system :: "int \<Rightarrow> int \<Rightarrow> dmrg_state \<Rightarrow> dmrg_state" where
  \<comment> \<open>\<^verbatim>\<open>while (sitesInSystem <= (numberOfSites)/2) { ... }\<close>\<close>
  "infinite_system m numberOfSites s =
     (if sitesInSystem s \<le> tdiv2 numberOfSites
      then infinite_system m numberOfSites (isa_step m s)
      else s)"
  by pat_completeness auto

termination
proof (relation "measure (\<lambda>(m, numberOfSites, s). nat (tdiv2 numberOfSites + 1 - sitesInSystem s))")
  fix m numberOfSites :: int and s :: dmrg_state
  assume head: "sitesInSystem s \<le> tdiv2 numberOfSites"
  have solve: "sitesInSystem (isa_solve m t) = sitesInSystem t" for t
    by (simp add: isa_solve_def print_line_def Let_def)
  have decide: "sitesInSystem (isa_decide m t) = sitesInSystem t" for t
    by (simp add: isa_decide_def)
  have truncate: "sitesInSystem (isa_truncate t) = sitesInSystem t" for t
    by (simp add: isa_truncate_def resize_def truncateReducedDM_def Let_def)
  have pin: "sitesInSystem (isa_pin m t) = sitesInSystem t" for t
    by (simp add: isa_pin_def)
  have rebuild: "sitesInSystem (isa_rebuild t) = sitesInSystem t" for t
    by (simp add: isa_rebuild_def resize_def Let_def)
  have arrays: "sitesInSystem (isa_next_arrays k t) = sitesInSystem t" for k t
    by (simp add: isa_next_arrays_def resize_def Let_def)
  have operators: "sitesInSystem (isa_operators m t) = sitesInSystem t" for t
    by (simp add: isa_operators_def arrays)
  have persist: "sitesInSystem (isa_persist t) = sitesInSystem t + 1" for t
    by (simp add: isa_persist_def store_call_def Let_def)
  have "sitesInSystem (isa_step m s) = sitesInSystem s + 1"
    by (simp add: isa_step_def persist operators rebuild pin truncate decide solve)
  with head
  show "((m, numberOfSites, isa_step m s), (m, numberOfSites, s))
        \<in> measure (\<lambda>(m, numberOfSites, s). nat (tdiv2 numberOfSites + 1 - sitesInSystem s))"
    by simp
qed simp

declare infinite_system.simps [simp del]

subsection \<open>The finite-system sweeps\<close>

text \<open>
  The finite-size block of \<^verbatim>\<open>main\<close> declares its own \<^verbatim>\<open>sitesInSystem\<close>, which hides the
  counter of the first loop; it is carried next to the state. No array is resized in this
  part of the program. What \<^verbatim>\<open>FSAread\<close> does to the in-memory block is decided by the
  class \<^verbatim>\<open>BLOCK\<close> and is not followed here.
\<close>

definition fsa_body :: "int \<Rightarrow> int \<Rightarrow> int \<Rightarrow> int \<times> dmrg_state \<Rightarrow> int \<times> dmrg_state" where
  "fsa_body m numberOfSites halfSweep p =
     (let sites = fst p; s = snd p;
          sitesInEnviroment = numberOfSites - sites;
          s = store_call (FSAread BlkE sitesInEnviroment halfSweep) s;
          s = print_line (if halfSweep mod 2 = 0 then EnergyLine sites sitesInEnviroment
                          else EnergyLine sitesInEnviroment sites) s;
          s = truncateReducedDM m s;
          sites = sites + 1;
          s = store_call (FSAwrite sites halfSweep) s
      in (sites, s))"

function fsa_while :: "int \<Rightarrow> int \<Rightarrow> int \<Rightarrow> int \<Rightarrow> int \<times> dmrg_state \<Rightarrow> int \<times> dmrg_state" where
  \<comment> \<open>\<^verbatim>\<open>while (sitesInSystem <= numberOfSites-minEnviromentSize) { ... }\<close>\<close>
  "fsa_while m numberOfSites minEnviromentSize halfSweep p =
     (if fst p \<le> numberOfSites - minEnviromentSize
      then fsa_while m numberOfSites minEnviromentSize halfSweep
             (fsa_body m numberOfSites halfSweep p)
      else p)"
  by pat_completeness auto
termination
  by (relation "measure (\<lambda>(m, numberOfSites, minEnviromentSize, halfSweep, p).
                  nat (numberOfSites - minEnviromentSize + 1 - fst p))")
     (simp_all add: fsa_body_def Let_def)

declare fsa_while.simps [simp del]

function fsa_for :: "int \<Rightarrow> int \<Rightarrow> int \<Rightarrow> int \<Rightarrow> int \<Rightarrow> int \<times> dmrg_state \<Rightarrow> int \<times> dmrg_state" where
  \<comment> \<open>\<^verbatim>\<open>for (int halfSweep=0; halfSweep<numberOfHalfSweeps; halfSweep++) { ... }\<close>, entered
      with the current value of \<^verbatim>\<open>halfSweep\<close>.\<close>
  "fsa_for m numberOfSites minEnviromentSize numberOfHalfSweeps halfSweep p =
     (if halfSweep < numberOfHalfSweeps
      then (let p = fsa_while m numberOfSites minEnviromentSize halfSweep p;
                sites = minEnviromentSize;
                s = store_call (FSAread BlkS sites halfSweep) (snd p)
            in fsa_for m numberOfSites minEnviromentSize numberOfHalfSweeps (halfSweep + 1)
                 (sites, s))
      else p)"
  by pat_completeness auto
termination
  by (relation "measure (\<lambda>(m, numberOfSites, minEnviromentSize, numberOfHalfSweeps, halfSweep, p).
                  nat (numberOfHalfSweeps - halfSweep))")
     simp_all

declare fsa_for.simps [simp del]

definition finite_system :: "int \<Rightarrow> int \<Rightarrow> int \<Rightarrow> dmrg_state \<Rightarrow> dmrg_state" where
  "finite_system m numberOfSites numberOfHalfSweeps s =
     (let minEnviromentSize = calculateMinEnviromentSize m numberOfSites;
          sites = tdiv2 numberOfSites;
          s = store_call (FSAread BlkS sites 1) s
      in snd (fsa_for m numberOfSites minEnviromentSize numberOfHalfSweeps 0 (sites, s)))"

definition after_infinite :: "int \<Rightarrow> int \<Rightarrow> dmrg_state" where
  \<comment> \<open>The state when the first loop of \<^verbatim>\<open>main\<close> has ended.\<close>
  "after_infinite m numberOfSites = infinite_system m numberOfSites (initial_state m)"

definition main :: "int \<Rightarrow> int \<Rightarrow> int \<Rightarrow> dmrg_state" where
  \<comment> \<open>\<^verbatim>\<open>main\<close> on the inputs \<^verbatim>\<open>m\<close>, \<^verbatim>\<open>numberOfSites\<close>, \<^verbatim>\<open>numberOfHalfSweeps\<close>.\<close>
  "main m numberOfSites numberOfHalfSweeps =
     finite_system m numberOfSites numberOfHalfSweeps
       (print_line EndOfInfinite (after_infinite m numberOfSites))"

subsection \<open>The block store\<close>

fun is_write :: "store_event \<Rightarrow> bool" where
  "is_write (ISAwrite _) = True"
| "is_write (FSAwrite _ _) = True"
| "is_write (FSAread _ _ _) = False"

definition persisted :: "store_event list \<Rightarrow> store_event list" where
  \<comment> \<open>Modelled from the spec: the methods of \<^verbatim>\<open>BLOCK\<close> are not in the source file. The
      block store contract has \<open>store\<close> persist a block under its key and \<open>load\<close> retrieve a
      previously stored block; only the writes change what is persisted, so the persisted
      state is given by the sequence of writes.\<close>
  "persisted log = filter is_write log"

subsection \<open>The steady state of the first loop\<close>

definition steady :: "int \<Rightarrow> dmrg_state \<Rightarrow> bool" where
  \<comment> \<open>An invariant used in the proofs: truncation has started, \<^verbatim>\<open>st\<close> and
      \<^verbatim>\<open>statesToKeepIFA\<close> are \<open>m\<close>, and the identity, the spin operators and the superblock
      arrays have extent \<open>2 * m\<close>.\<close>
  "steady m s \<longleftrightarrow>
     (truncflag s = 3 \<or> truncflag s = 4) \<and> st s = m \<and> statesToKeepIFA s = m \<and>
     extents s I2st = [2 * m, 2 * m] \<and> extents s SzAB = [2 * m, 2 * m] \<and>
     extents s SpAB = [2 * m, 2 * m] \<and> extents s SmAB = [2 * m, 2 * m] \<and>
     extents s Habcd = [2 * m, 2 * m, 2 * m, 2 * m] \<and> extents s Psi = [2 * m, 2 * m] \<and>
     extents s rhoTSR = [2 * m, 2 * m]"

definition frozen :: "int \<Rightarrow> dmrg_state \<Rightarrow> bool" where
  \<comment> \<open>The part of \<open>steady\<close> that holds for every \<open>m\<close>: the guard \<^verbatim>\<open>truncflag < 3\<close> is
      closed and the arrays it protects have extent \<open>2 * m\<close>.\<close>
  "frozen m s \<longleftrightarrow>
     3 \<le> truncflag s \<and>
     extents s I2st = [2 * m, 2 * m] \<and> extents s SzAB = [2 * m, 2 * m] \<and>
     extents s SpAB = [2 * m, 2 * m] \<and> extents s SmAB = [2 * m, 2 * m] \<and>
     extents s Habcd = [2 * m, 2 * m, 2 * m, 2 * m] \<and> extents s Psi = [2 * m, 2 * m] \<and>
     extents s rhoTSR = [2 * m, 2 * m]"

subsection \<open>The environment-size loop\<close>

lemma cmes_loop_ge: "r \<le> calculateMinEnviromentSize_loop m L r"
proof (induction m L r rule: calculateMinEnviromentSize_loop.induct)
  case (1 m L r)
  then show ?case
    by (subst calculateMinEnviromentSize_loop.simps) (simp, linarith)
qed

lemma cmes_loop_past: "L \<le> r \<Longrightarrow> calculateMinEnviromentSize_loop m L r = r"
  by (subst calculateMinEnviromentSize_loop.simps) simp

lemma cmes_loop_le: "r \<le> L \<Longrightarrow> calculateMinEnviromentSize_loop m L r \<le> L"
proof (induction m L r rule: calculateMinEnviromentSize_loop.induct)
  case (1 m L r)
  then show ?case
    by (subst calculateMinEnviromentSize_loop.simps) simp
qed

lemma cmes_loop_hit:
  "calculateMinEnviromentSize_loop m L r < L \<Longrightarrow> powf_two_ge (calculateMinEnviromentSize_loop m L r) m"
proof (induction m L r rule: calculateMinEnviromentSize_loop.induct)
  case (1 m L r)
  have unf: "calculateMinEnviromentSize_loop m L r =
     (if r < L then (if powf_two_ge r m then r else calculateMinEnviromentSize_loop m L (r + 1)) else r)"
    by (rule calculateMinEnviromentSize_loop.simps)
  show ?case
  proof (cases "r < L")
    case True
    show ?thesis
    proof (cases "powf_two_ge r m")
      case True
      with \<open>r < L\<close> unf show ?thesis by simp
    next
      case False
      with \<open>r < L\<close> "1.IH" "1.prems" unf show ?thesis by simp
    qed
  next
    case False
    with "1.prems" unf show ?thesis by simp
  qed
qed

lemma cmes_loop_least:
  "r \<le> k \<Longrightarrow> k < calculateMinEnviromentSize_loop m L r \<Longrightarrow> \<not> powf_two_ge k m"
proof (induction m L r rule: calculateMinEnviromentSize_loop.induct)
  case (1 m L r)
  have unf: "calculateMinEnviromentSize_loop m L r =
     (if r < L then (if powf_two_ge r m then r else calculateMinEnviromentSize_loop m L (r + 1)) else r)"
    by (rule calculateMinEnviromentSize_loop.simps)
  show ?case
  proof (cases "r < L \<and> \<not> powf_two_ge r m")
    case True
    then have eq: "calculateMinEnviromentSize_loop m L r = calculateMinEnviromentSize_loop m L (r + 1)"
      using unf by simp
    show ?thesis
    proof (cases "k = r")
      case True
      with \<open>r < L \<and> \<not> powf_two_ge r m\<close> show ?thesis by simp
    next
      case False
      with "1.prems" have "r + 1 \<le> k" by simp
      with "1.IH" True "1.prems" eq show ?thesis by simp
    qed
  next
    case False
    then have "calculateMinEnviromentSize_loop m L r = r" using unf by auto
    with "1.prems" show ?thesis by simp
  qed
qed

lemma cmes_loop_found:
  "r \<le> k \<Longrightarrow> k < L \<Longrightarrow> powf_two_ge k m \<Longrightarrow> calculateMinEnviromentSize_loop m L r \<le> k"
  using cmes_loop_least [of r k m L] by force

lemma powf_two_ge_exact:
  assumes "m < 2 ^ 31" "0 \<le> k"
  shows "powf_two_ge k m \<longleftrightarrow> 2 * m \<le> 2 ^ nat k"
proof (cases "k \<le> 127")
  case True
  then show ?thesis by (simp add: powf_two_ge_def)
next
  case False
  then have "(32::nat) \<le> nat k" by simp
  then have "(2::int) ^ 32 \<le> 2 ^ nat k"
    by (rule power_increasing) simp
  with assms False show ?thesis by (simp add: powf_two_ge_def)
qed

subsection \<open>Products inside the 32-bit range\<close>

lemma int32_exact: "- (2 ^ 31) \<le> x \<Longrightarrow> x < 2 ^ 31 \<Longrightarrow> int32 x = x"
  by (simp add: int32_def)

lemma int32_range: "- (2 ^ 31) \<le> int32 x \<and> int32 x < 2 ^ 31"
proof -
  have "0 \<le> (x + 2 ^ 31) mod 2 ^ 32" and "(x + 2 ^ 31) mod 2 ^ 32 < (2 ^ 32 :: int)"
    by simp_all
  then show ?thesis by (simp add: int32_def)
qed

subsection \<open>Field-wise effect of the primitive operations\<close>

lemma resize_fields [simp]:
  "st (resize a es s) = st s"
  "sitesInSystem (resize a es s) = sitesInSystem s"
  "truncflag (resize a es s) = truncflag s"
  "statesToKeepIFA (resize a es s) = statesToKeepIFA s"
  "extents (resize a es s) = (extents s)(a := es)"
  "resizes (resize a es s) = resizes s @ [(a, es)]"
  "printed (resize a es s) = printed s"
  "store_log (resize a es s) = store_log s"
  "truncations (resize a es s) = truncations s"
  by (simp_all add: resize_def)

lemma print_line_fields [simp]:
  "st (print_line l s) = st s"
  "sitesInSystem (print_line l s) = sitesInSystem s"
  "truncflag (print_line l s) = truncflag s"
  "statesToKeepIFA (print_line l s) = statesToKeepIFA s"
  "extents (print_line l s) = extents s"
  "resizes (print_line l s) = resizes s"
  "printed (print_line l s) = printed s @ [l]"
  "store_log (print_line l s) = store_log s"
  "truncations (print_line l s) = truncations s"
  by (simp_all add: print_line_def)

lemma store_call_fields [simp]:
  "st (store_call e s) = st s"
  "sitesInSystem (store_call e s) = sitesInSystem s"
  "truncflag (store_call e s) = truncflag s"
  "statesToKeepIFA (store_call e s) = statesToKeepIFA s"
  "extents (store_call e s) = extents s"
  "resizes (store_call e s) = resizes s"
  "printed (store_call e s) = printed s"
  "store_log (store_call e s) = store_log s @ [e]"
  "truncations (store_call e s) = truncations s"
  by (simp_all add: store_call_def)

lemma truncateReducedDM_fields [simp]:
  "st (truncateReducedDM k s) = st s"
  "sitesInSystem (truncateReducedDM k s) = sitesInSystem s"
  "truncflag (truncateReducedDM k s) = truncflag s"
  "statesToKeepIFA (truncateReducedDM k s) = statesToKeepIFA s"
  "extents (truncateReducedDM k s) = extents s"
  "resizes (truncateReducedDM k s) = resizes s"
  "printed (truncateReducedDM k s) = printed s"
  "store_log (truncateReducedDM k s) = store_log s"
  "truncations (truncateReducedDM k s) =
     truncations s @ [\<lparr>rho_rows = rows rhoTSR s, requested = k\<rparr>]"
  by (simp_all add: truncateReducedDM_def)

lemma rows_cong: "extents s a = extents t a \<Longrightarrow> rows a s = rows a t"
  by (simp add: rows_def)

lemma rows_extents: "extents s a = e # es \<Longrightarrow> rows a s = e"
  by (simp add: rows_def)

subsection \<open>The parts of the loop body\<close>

lemma isa_solve_fields [simp]:
  "st (isa_solve m s) = st s"
  "sitesInSystem (isa_solve m s) = sitesInSystem s"
  "truncflag (isa_solve m s) = truncflag s"
  "statesToKeepIFA (isa_solve m s) =
     (if int32 (2 * statesToKeepIFA s) \<le> m then int32 (2 * statesToKeepIFA s) else m)"
  "extents (isa_solve m s) = extents s"
  "resizes (isa_solve m s) = resizes s"
  "printed (isa_solve m s) = printed s @ [EnergyLine (sitesInSystem s) (sitesInSystem s)]"
  "store_log (isa_solve m s) = store_log s"
  "truncations (isa_solve m s) = truncations s"
  by (simp_all add: isa_solve_def Let_def)

lemma isa_decide_fields [simp]:
  "sitesInSystem (isa_decide m s) = sitesInSystem s"
  "statesToKeepIFA (isa_decide m s) = statesToKeepIFA s"
  "extents (isa_decide m s) = extents s"
  "resizes (isa_decide m s) = resizes s"
  "printed (isa_decide m s) = printed s"
  "store_log (isa_decide m s) = store_log s"
  "truncations (isa_decide m s) = truncations s"
  by (simp_all add: isa_decide_def)

lemma isa_truncate_fields [simp]:
  "st (isa_truncate s) = st s"
  "sitesInSystem (isa_truncate s) = sitesInSystem s"
  "truncflag (isa_truncate s) = truncflag s"
  "statesToKeepIFA (isa_truncate s) = statesToKeepIFA s"
  "printed (isa_truncate s) = printed s"
  "store_log (isa_truncate s) = store_log s"
  "truncations (isa_truncate s) =
     truncations s @ [\<lparr>rho_rows = rows rhoTSR s, requested = statesToKeepIFA s\<rparr>]"
  by (simp_all add: isa_truncate_def Let_def rows_def)

lemma isa_truncate_resizes:
  "resizes (isa_truncate s) = resizes s @
     [(OO_array, [statesToKeepIFA s, rows rhoTSR s]), (OT_array, [rows rhoTSR s, statesToKeepIFA s]),
      (HAp, [statesToKeepIFA s, statesToKeepIFA s]), (SzB, [statesToKeepIFA s, statesToKeepIFA s]),
      (SpB, [statesToKeepIFA s, statesToKeepIFA s]), (SmB, [statesToKeepIFA s, statesToKeepIFA s])]"
  by (simp add: isa_truncate_def Let_def rows_def)

lemma isa_truncate_extents:
  "a \<notin> {OO_array, OT_array, HAp, SzB, SpB, SmB} \<Longrightarrow> extents (isa_truncate s) a = extents s a"
  by (simp add: isa_truncate_def Let_def)

lemma isa_pin_fields [simp]:
  "sitesInSystem (isa_pin m s) = sitesInSystem s"
  "statesToKeepIFA (isa_pin m s) = statesToKeepIFA s"
  "extents (isa_pin m s) = extents s"
  "resizes (isa_pin m s) = resizes s"
  "printed (isa_pin m s) = printed s"
  "store_log (isa_pin m s) = store_log s"
  "truncations (isa_pin m s) = truncations s"
  by (simp_all add: isa_pin_def)

lemma isa_rebuild_fields [simp]:
  "st (isa_rebuild s) = st s"
  "sitesInSystem (isa_rebuild s) = sitesInSystem s"
  "truncflag (isa_rebuild s) = truncflag s"
  "statesToKeepIFA (isa_rebuild s) = statesToKeepIFA s"
  "printed (isa_rebuild s) = printed s"
  "store_log (isa_rebuild s) = store_log s"
  "truncations (isa_rebuild s) = truncations s"
  "resizes (isa_rebuild s) = resizes s @
     [(TSR, [statesToKeepIFA s, 2, statesToKeepIFA s, 2]), (HAB, [int32 (2 * st s), int32 (2 * st s)])]"
  by (simp_all add: isa_rebuild_def Let_def)

lemma isa_rebuild_extents:
  "extents (isa_rebuild s) = (extents s)
     (TSR := [statesToKeepIFA s, 2, statesToKeepIFA s, 2], HAB := [int32 (2 * st s), int32 (2 * st s)])"
  by (simp add: isa_rebuild_def Let_def)

lemma isa_next_arrays_fields [simp]:
  "st (isa_next_arrays k s) = st s"
  "sitesInSystem (isa_next_arrays k s) = sitesInSystem s"
  "truncflag (isa_next_arrays k s) = truncflag s"
  "statesToKeepIFA (isa_next_arrays k s) = statesToKeepIFA s"
  "printed (isa_next_arrays k s) = printed s"
  "store_log (isa_next_arrays k s) = store_log s"
  "truncations (isa_next_arrays k s) = truncations s"
  "resizes (isa_next_arrays k s) = resizes s @
     [(I2st, [k, k]), (SzAB, [int32 (2 * st s), int32 (2 * st s)]), (SpAB, [int32 (2 * st s), int32 (2 * st s)]),
      (SmAB, [int32 (2 * st s), int32 (2 * st s)]), (Habcd, [int32 (2 * st s), int32 (2 * st s), int32 (2 * st s), int32 (2 * st s)]),
      (Psi, [int32 (2 * st s), int32 (2 * st s)]), (rhoTSR, [int32 (2 * st s), int32 (2 * st s)])]"
  by (simp_all add: isa_next_arrays_def Let_def)

lemma isa_next_arrays_extents:
  "extents (isa_next_arrays k s) = (extents s)
     (I2st := [k, k], SzAB := [int32 (2 * st s), int32 (2 * st s)], SpAB := [int32 (2 * st s), int32 (2 * st s)],
      SmAB := [int32 (2 * st s), int32 (2 * st s)], Habcd := [int32 (2 * st s), int32 (2 * st s), int32 (2 * st s), int32 (2 * st s)],
      Psi := [int32 (2 * st s), int32 (2 * st s)], rhoTSR := [int32 (2 * st s), int32 (2 * st s)])"
  by (simp add: isa_next_arrays_def Let_def)

lemma isa_operators_fields [simp]:
  "st (isa_operators m s) = st s"
  "sitesInSystem (isa_operators m s) = sitesInSystem s"
  "statesToKeepIFA (isa_operators m s) = statesToKeepIFA s"
  "printed (isa_operators m s) = printed s"
  "store_log (isa_operators m s) = store_log s"
  "truncations (isa_operators m s) = truncations s"
  by (simp_all add: isa_operators_def)

lemma isa_persist_fields [simp]:
  "st (isa_persist s) = st s"
  "sitesInSystem (isa_persist s) = sitesInSystem s + 1"
  "truncflag (isa_persist s) = truncflag s"
  "statesToKeepIFA (isa_persist s) = statesToKeepIFA s"
  "extents (isa_persist s) = extents s"
  "resizes (isa_persist s) = resizes s"
  "printed (isa_persist s) = printed s"
  "store_log (isa_persist s) = store_log s @ [ISAwrite (sitesInSystem s + 1)]"
  "truncations (isa_persist s) = truncations s"
  by (simp_all add: isa_persist_def Let_def)

subsection \<open>One pass\<close>

lemma isa_step_fields [simp]:
  "sitesInSystem (isa_step m s) = sitesInSystem s + 1"
  "printed (isa_step m s) = printed s @ [EnergyLine (sitesInSystem s) (sitesInSystem s)]"
  "store_log (isa_step m s) = store_log s @ [ISAwrite (sitesInSystem s + 1)]"
  "truncations (isa_step m s) =
     truncations s @ [\<lparr>rho_rows = rows rhoTSR s, requested = statesToKeepIFA (isa_step m s)\<rparr>]"
  by (simp_all add: isa_step_def rows_cong [of "isa_decide m (isa_solve m s)" rhoTSR s])

lemma isa_step_keep:
  "statesToKeepIFA (isa_step m s) =
     (if int32 (2 * statesToKeepIFA s) \<le> m then int32 (2 * statesToKeepIFA s) else m)"
  by (simp add: isa_step_def)

subsection \<open>The three kinds of pass\<close>

lemma isa_step_truncflag:
  "truncflag s = 0 \<Longrightarrow> truncflag (isa_step m s) = (if int32 (2 * st s) \<le> m then 0 else 3)"
  "3 \<le> truncflag s \<Longrightarrow>
     truncflag (isa_step m s) =
       (if truncflag s = 3 \<and> \<not> int32 (2 * st s) \<le> m then 4 else truncflag s)"
  by (simp_all add: isa_step_def isa_decide_def isa_pin_def isa_operators_def)

lemma isa_step_grow:
  assumes "truncflag s = 0" "2 * st s \<le> m" "0 < st s" "m < 2 ^ 29"
  shows "st (isa_step m s) = 2 * st s"
    and "truncflag (isa_step m s) = 0"
    and "extents (isa_step m s) rhoTSR = [2 * (2 * st s), 2 * (2 * st s)]"
    and "extents (isa_step m s) I2st = [4 * (2 * st s), 4 * (2 * st s)]"
proof -
  from assms have a: "int32 (2 * st s) = 2 * st s" "int32 (st s * 2) = 2 * st s"
    and b: "int32 (2 * (2 * st s)) = 2 * (2 * st s)" "int32 (4 * (2 * st s)) = 4 * (2 * st s)"
    by (simp_all add: int32_exact)
  with assms(1,2) show "st (isa_step m s) = 2 * st s"
    and "truncflag (isa_step m s) = 0"
    and "extents (isa_step m s) rhoTSR = [2 * (2 * st s), 2 * (2 * st s)]"
    and "extents (isa_step m s) I2st = [4 * (2 * st s), 4 * (2 * st s)]"
    by (simp_all add: isa_step_def isa_decide_def isa_pin_def isa_operators_def
          isa_next_arrays_extents)
qed

lemma isa_step_first_truncation:
  assumes "truncflag s = 0" "m < 2 * st s" "0 < st s" "st s < 2 ^ 30" "1 \<le> m" "m < 2 ^ 29"
  shows "truncflag (isa_decide m (isa_solve m s)) = 1"
    and "truncflag (isa_pin m (isa_truncate (isa_decide m (isa_solve m s)))) = 2"
    and "st (isa_pin m (isa_truncate (isa_decide m (isa_solve m s)))) = m"
    and "st (isa_step m s) = m"
    and "truncflag (isa_step m s) = 3"
    and "extents (isa_step m s) I2st = [2 * m, 2 * m]"
    and "extents (isa_step m s) SzAB = [2 * m, 2 * m]"
    and "extents (isa_step m s) SpAB = [2 * m, 2 * m]"
    and "extents (isa_step m s) SmAB = [2 * m, 2 * m]"
    and "extents (isa_step m s) Habcd = [2 * m, 2 * m, 2 * m, 2 * m]"
    and "extents (isa_step m s) Psi = [2 * m, 2 * m]"
    and "extents (isa_step m s) rhoTSR = [2 * m, 2 * m]"
    and "extents (isa_step m s) HAB = [2 * m, 2 * m]"
    and "resizes (isa_step m s) = resizes s @
           [(OO_array, [statesToKeepIFA (isa_step m s), rows rhoTSR s]),
            (OT_array, [rows rhoTSR s, statesToKeepIFA (isa_step m s)]),
            (HAp, [statesToKeepIFA (isa_step m s), statesToKeepIFA (isa_step m s)]),
            (SzB, [statesToKeepIFA (isa_step m s), statesToKeepIFA (isa_step m s)]),
            (SpB, [statesToKeepIFA (isa_step m s), statesToKeepIFA (isa_step m s)]),
            (SmB, [statesToKeepIFA (isa_step m s), statesToKeepIFA (isa_step m s)]),
            (TSR, [statesToKeepIFA (isa_step m s), 2, statesToKeepIFA (isa_step m s), 2]),
            (HAB, [2 * m, 2 * m]), (I2st, [2 * m, 2 * m]), (SzAB, [2 * m, 2 * m]),
            (SpAB, [2 * m, 2 * m]), (SmAB, [2 * m, 2 * m]),
            (Habcd, [2 * m, 2 * m, 2 * m, 2 * m]), (Psi, [2 * m, 2 * m]),
            (rhoTSR, [2 * m, 2 * m])]"
proof -
  from assms have a: "int32 (2 * st s) = 2 * st s" and b: "int32 (2 * m) = 2 * m"
    by (simp_all add: int32_exact)
  with assms(1,2)
  show "truncflag (isa_decide m (isa_solve m s)) = 1"
    and "truncflag (isa_pin m (isa_truncate (isa_decide m (isa_solve m s)))) = 2"
    and "st (isa_pin m (isa_truncate (isa_decide m (isa_solve m s)))) = m"
    and "st (isa_step m s) = m"
    and "truncflag (isa_step m s) = 3"
    and "extents (isa_step m s) I2st = [2 * m, 2 * m]"
    and "extents (isa_step m s) SzAB = [2 * m, 2 * m]"
    and "extents (isa_step m s) SpAB = [2 * m, 2 * m]"
    and "extents (isa_step m s) SmAB = [2 * m, 2 * m]"
    and "extents (isa_step m s) Habcd = [2 * m, 2 * m, 2 * m, 2 * m]"
    and "extents (isa_step m s) Psi = [2 * m, 2 * m]"
    and "extents (isa_step m s) rhoTSR = [2 * m, 2 * m]"
    and "extents (isa_step m s) HAB = [2 * m, 2 * m]"
    by (simp_all add: isa_step_def isa_decide_def isa_pin_def isa_operators_def
          isa_next_arrays_extents isa_rebuild_extents)
  from assms(1,2) a b
  show "resizes (isa_step m s) = resizes s @
           [(OO_array, [statesToKeepIFA (isa_step m s), rows rhoTSR s]),
            (OT_array, [rows rhoTSR s, statesToKeepIFA (isa_step m s)]),
            (HAp, [statesToKeepIFA (isa_step m s), statesToKeepIFA (isa_step m s)]),
            (SzB, [statesToKeepIFA (isa_step m s), statesToKeepIFA (isa_step m s)]),
            (SpB, [statesToKeepIFA (isa_step m s), statesToKeepIFA (isa_step m s)]),
            (SmB, [statesToKeepIFA (isa_step m s), statesToKeepIFA (isa_step m s)]),
            (TSR, [statesToKeepIFA (isa_step m s), 2, statesToKeepIFA (isa_step m s), 2]),
            (HAB, [2 * m, 2 * m]), (I2st, [2 * m, 2 * m]), (SzAB, [2 * m, 2 * m]),
            (SpAB, [2 * m, 2 * m]), (SmAB, [2 * m, 2 * m]),
            (Habcd, [2 * m, 2 * m, 2 * m, 2 * m]), (Psi, [2 * m, 2 * m]),
            (rhoTSR, [2 * m, 2 * m])]"
    by (simp add: isa_step_def isa_decide_def isa_pin_def isa_operators_def
          isa_truncate_resizes rows_def)
qed

lemma isa_step_steady:
  assumes "3 \<le> truncflag s"
  shows "st (isa_step m s) = (if int32 (2 * st s) \<le> m then int32 (st s * 2) else st s)"
    and "a \<notin> {OO_array, OT_array, HAp, SzB, SpB, SmB, TSR, HAB} \<Longrightarrow>
           extents (isa_step m s) a = extents s a"
    and "resizes (isa_step m s) = resizes s @
           [(OO_array, [statesToKeepIFA (isa_step m s), rows rhoTSR s]),
            (OT_array, [rows rhoTSR s, statesToKeepIFA (isa_step m s)]),
            (HAp, [statesToKeepIFA (isa_step m s), statesToKeepIFA (isa_step m s)]),
            (SzB, [statesToKeepIFA (isa_step m s), statesToKeepIFA (isa_step m s)]),
            (SpB, [statesToKeepIFA (isa_step m s), statesToKeepIFA (isa_step m s)]),
            (SmB, [statesToKeepIFA (isa_step m s), statesToKeepIFA (isa_step m s)]),
            (TSR, [statesToKeepIFA (isa_step m s), 2, statesToKeepIFA (isa_step m s), 2]),
            (HAB, [int32 (2 * st (isa_step m s)), int32 (2 * st (isa_step m s))])]"
  using assms
  by (simp_all add: isa_step_def isa_decide_def isa_pin_def isa_operators_def
        isa_rebuild_extents isa_truncate_extents isa_truncate_resizes rows_def)

text \<open>
  Outside the range the products wrap: with \<open>m = 2 ^ 30\<close> and \<open>st = 2 ^ 30\<close> the test
  \<^verbatim>\<open>2*st <= m\<close> succeeds on the wrapped product, no truncation starts and \<^verbatim>\<open>st\<close> becomes
  \<open>- (2 ^ 31)\<close>. The statements about the values of \<^verbatim>\<open>st\<close>, \<^verbatim>\<open>statesToKeepIFA\<close> and the
  extents therefore assume \<open>m < 2 ^ 29\<close>.
\<close>

lemma isa_decide_wraps:
  assumes "st s = 2 ^ 30" "truncflag s = 0"
  shows "st (isa_decide (2 ^ 30) s) = - (2 ^ 31)" and "truncflag (isa_decide (2 ^ 30) s) = 0"
  using assms by (simp_all add: isa_decide_def int32_def)

subsection \<open>Runs of the first loop\<close>

lemma infinite_system_funpow:
  "infinite_system m L s = (isa_step m ^^ nat (tdiv2 L + 1 - sitesInSystem s)) s"
proof (induction m L s rule: infinite_system.induct)
  case (1 m L s)
  show ?case
  proof (cases "sitesInSystem s \<le> tdiv2 L")
    case True
    then have n: "nat (tdiv2 L + 1 - sitesInSystem s) = Suc (nat (tdiv2 L + 1 - sitesInSystem (isa_step m s)))"
      by simp
    from True have "infinite_system m L s = infinite_system m L (isa_step m s)"
      by (subst infinite_system.simps) simp
    also have "\<dots> = (isa_step m ^^ nat (tdiv2 L + 1 - sitesInSystem (isa_step m s))) (isa_step m s)"
      using True by (rule "1.IH")
    also have "\<dots> = (isa_step m ^^ nat (tdiv2 L + 1 - sitesInSystem s)) s"
      unfolding n by (simp add: funpow_swap1)
    finally show ?thesis .
  next
    case False
    then show ?thesis by (subst infinite_system.simps) simp
  qed
qed

lemma after_infinite_funpow:
  "after_infinite m L = (isa_step m ^^ nat (tdiv2 L - 1)) (initial_state m)"
  by (simp add: after_infinite_def infinite_system_funpow initial_state_def)

lemma run_sitesInSystem:
  "sitesInSystem ((isa_step m ^^ k) s) = sitesInSystem s + int k"
  by (induction k) simp_all

lemma run_printed:
  "printed ((isa_step m ^^ k) s) =
     printed s @ map (\<lambda>j. EnergyLine j j) [sitesInSystem s .. sitesInSystem s + int k - 1]"
proof (induction k)
  case 0
  show ?case by simp
next
  case (Suc k)
  have "[sitesInSystem s .. sitesInSystem s + int (Suc k) - 1] =
        [sitesInSystem s .. sitesInSystem s + int k - 1] @ [sitesInSystem s + int k]"
    using upto_rec2 [of "sitesInSystem s" "sitesInSystem s + int k"] by simp
  with Suc show ?case by (simp add: run_sitesInSystem)
qed

lemma run_store_log:
  "store_log ((isa_step m ^^ k) s) =
     store_log s @ map ISAwrite [sitesInSystem s + 1 .. sitesInSystem s + int k]"
proof (induction k)
  case 0
  show ?case by simp
next
  case (Suc k)
  have "[sitesInSystem s + 1 .. sitesInSystem s + int (Suc k)] =
        [sitesInSystem s + 1 .. sitesInSystem s + int k] @ [sitesInSystem s + int k + 1]"
    using upto_rec2 [of "sitesInSystem s + 1" "sitesInSystem s + int k + 1"]
    by (simp add: add.commute add.left_commute)
  with Suc show ?case by (simp add: run_sitesInSystem)
qed

lemma run_truncflag: "truncflag ((isa_step m ^^ k) (initial_state m)) \<in> {0, 3, 4}"
proof (induction k)
  case 0
  show ?case by (simp add: initial_state_def)
next
  case (Suc k)
  define s where "s = (isa_step m ^^ k) (initial_state m)"
  have next_s: "(isa_step m ^^ Suc k) (initial_state m) = isa_step m s"
    by (simp add: s_def)
  from Suc have "truncflag s = 0 \<or> 3 \<le> truncflag s \<and> truncflag s \<in> {3, 4}"
    by (auto simp: s_def)
  then show ?case
  proof
    assume "truncflag s = 0"
    then show ?thesis unfolding next_s by (simp add: isa_step_truncflag)
  next
    assume "3 \<le> truncflag s \<and> truncflag s \<in> {3, 4}"
    then show ?thesis unfolding next_s by (auto simp: isa_step_truncflag)
  qed
qed



lemma isa_step_keep_exact:
  assumes "0 \<le> statesToKeepIFA s" "statesToKeepIFA s < 2 ^ 30"
  shows "statesToKeepIFA (isa_step m s) = min (2 * statesToKeepIFA s) m"
proof -
  from assms have "int32 (2 * statesToKeepIFA s) = 2 * statesToKeepIFA s"
    by (simp add: int32_exact)
  then show ?thesis by (simp add: isa_step_keep min_def)
qed

lemma run_statesToKeepIFA:
  assumes "2 \<le> m" "m < 2 ^ 29"
  shows "statesToKeepIFA ((isa_step m ^^ k) (initial_state m)) = min (2 ^ Suc k) m"
proof (induction k)
  case 0
  from assms show ?case by (simp add: initial_state_def)
next
  case (Suc k)
  define s where "s = (isa_step m ^^ k) (initial_state m)"
  from Suc have keep: "statesToKeepIFA s = min (2 ^ Suc k) m" by (simp add: s_def)
  with assms have "0 \<le> statesToKeepIFA s" "statesToKeepIFA s < 2 ^ 30"
    by (simp_all add: min_def)
  then have "statesToKeepIFA (isa_step m s) = min (2 * statesToKeepIFA s) m"
    by (rule isa_step_keep_exact)
  moreover from assms have "min (2 * min (2 ^ Suc k) m) m = min (2 ^ Suc (Suc k)) m"
    by (simp add: min_def)
  ultimately have "statesToKeepIFA (isa_step m s) = min (2 ^ Suc (Suc k)) m"
    by (simp only: keep)
  then show ?case by (simp add: s_def)
qed

lemma run_phases:
  assumes "1 \<le> m" "m < 2 ^ 29"
  shows "(truncflag ((isa_step m ^^ k) (initial_state m)) = 0 \<and>
          st ((isa_step m ^^ k) (initial_state m)) = 2 ^ Suc k \<and>
          statesToKeepIFA ((isa_step m ^^ k) (initial_state m)) = 2 ^ Suc k \<and>
          extents ((isa_step m ^^ k) (initial_state m)) rhoTSR = [2 * 2 ^ Suc k, 2 * 2 ^ Suc k] \<and>
          (0 < k \<longrightarrow> 2 ^ Suc k \<le> m)) \<or>
         ((truncflag ((isa_step m ^^ k) (initial_state m)) = 3 \<or>
           truncflag ((isa_step m ^^ k) (initial_state m)) = 4) \<and>
          st ((isa_step m ^^ k) (initial_state m)) = m \<and>
          statesToKeepIFA ((isa_step m ^^ k) (initial_state m)) = m \<and>
          extents ((isa_step m ^^ k) (initial_state m)) rhoTSR = [2 * m, 2 * m])"
    (is "?G k \<or> ?T k")
proof (induction k)
  case 0
  show ?case by (simp add: initial_state_def initial_extents_def)
next
  case (Suc k)
  define s where "s = (isa_step m ^^ k) (initial_state m)"
  have next_s: "(isa_step m ^^ Suc k) (initial_state m) = isa_step m s"
    by (simp add: s_def)
  from Suc show ?case
  proof
    assume g: "?G k"
    then have flag: "truncflag s = 0" and st: "st s = 2 ^ Suc k"
      and keep: "statesToKeepIFA s = 2 ^ Suc k"
      and below: "0 < k \<longrightarrow> 2 ^ Suc k \<le> m"
      by (simp_all add: s_def)
    have pos: "0 < st s" unfolding st by simp
    have small: "st s < 2 ^ 30"
    proof (cases "k = 0")
      case True
      with st show ?thesis by simp
    next
      case False
      with below st assms(2) show ?thesis by simp
    qed
    from pos small keep st
    have ramp: "statesToKeepIFA (isa_step m s) = min (2 * st s) m"
      by (simp add: isa_step_keep_exact)
    show ?thesis
    proof (cases "2 * st s \<le> m")
      case True
      with flag pos assms(2) st ramp have "?G (Suc k)"
        unfolding next_s by (simp add: isa_step_grow min_def)
      then show ?thesis ..
    next
      case False
      then have lt: "m < 2 * st s" by simp
      with ramp have "statesToKeepIFA (isa_step m s) = m" by simp
      with flag lt pos small assms have "?T (Suc k)"
        unfolding next_s by (simp add: isa_step_first_truncation)
      then show ?thesis ..
    qed
  next
    assume t: "?T k"
    then have flag: "3 \<le> truncflag s" "truncflag s = 3 \<or> truncflag s = 4" and st: "st s = m"
      and keep: "statesToKeepIFA s = m" and rho: "extents s rhoTSR = [2 * m, 2 * m]"
      by (auto simp: s_def)
    from assms have twice: "int32 (2 * m) = 2 * m" by (simp add: int32_exact)
    with assms st have over: "\<not> int32 (2 * st s) \<le> m" by simp
    from keep assms have "statesToKeepIFA (isa_step m s) = min (2 * m) m"
      by (simp add: isa_step_keep_exact)
    with assms have ramp: "statesToKeepIFA (isa_step m s) = m" by simp
    from flag over st rho ramp have "?T (Suc k)"
      unfolding next_s
      by (auto simp: isa_step_steady isa_step_truncflag)
    then show ?thesis ..
  qed
qed


subsection \<open>After truncation has started\<close>



lemma frozen_step:
  assumes "frozen m s"
  shows "frozen m (isa_step m s)"
    and "\<exists>es. resizes (isa_step m s) = resizes s @ es \<and>
              map fst es = [OO_array, OT_array, HAp, SzB, SpB, SmB, TSR, HAB]"
proof -
  from assms have flag: "3 \<le> truncflag s" by (simp add: frozen_def)
  then have "3 \<le> truncflag (isa_step m s)" by (simp add: isa_step_truncflag)
  with assms flag show "frozen m (isa_step m s)"
    by (simp add: frozen_def isa_step_steady)
  from flag show "\<exists>es. resizes (isa_step m s) = resizes s @ es \<and>
              map fst es = [OO_array, OT_array, HAp, SzB, SpB, SmB, TSR, HAB]"
    by (simp add: isa_step_steady)
qed

lemma frozen_run: "frozen m s \<Longrightarrow> frozen m ((isa_step m ^^ j) s)"
  by (induction j) (simp_all add: frozen_step)


lemma steady_frozen: "steady m s \<Longrightarrow> frozen m s"
  by (auto simp: steady_def frozen_def)


subsection \<open>The sweeps\<close>

lemma fsa_body_fields [simp]:
  "fst (fsa_body m L h p) = fst p + 1"
  "st (snd (fsa_body m L h p)) = st (snd p)"
  "sitesInSystem (snd (fsa_body m L h p)) = sitesInSystem (snd p)"
  "truncflag (snd (fsa_body m L h p)) = truncflag (snd p)"
  "statesToKeepIFA (snd (fsa_body m L h p)) = statesToKeepIFA (snd p)"
  "extents (snd (fsa_body m L h p)) = extents (snd p)"
  "resizes (snd (fsa_body m L h p)) = resizes (snd p)"
  "printed (snd (fsa_body m L h p)) = printed (snd p) @
     [if h mod 2 = 0 then EnergyLine (fst p) (L - fst p) else EnergyLine (L - fst p) (fst p)]"
  "store_log (snd (fsa_body m L h p)) = store_log (snd p) @
     [FSAread BlkE (L - fst p) h, FSAwrite (fst p + 1) h]"
  "truncations (snd (fsa_body m L h p)) = truncations (snd p) @
     [\<lparr>rho_rows = rows rhoTSR (snd p), requested = m\<rparr>]"
  by (simp_all add: fsa_body_def Let_def rows_def)

lemma fsa_while_skip: "\<not> fst p \<le> L - r \<Longrightarrow> fsa_while m L r h p = p"
  by (subst fsa_while.simps) simp

lemma fsa_while_enter:
  "fst p \<le> L - r \<Longrightarrow> fsa_while m L r h p = fsa_while m L r h (fsa_body m L h p)"
  by (subst fsa_while.simps) simp

lemma fsa_for_done: "\<not> h < n \<Longrightarrow> fsa_for m L r n h p = p"
  by (subst fsa_for.simps) simp

lemma fsa_for_enter:
  "h < n \<Longrightarrow> fsa_for m L r n h p =
     fsa_for m L r n (h + 1) (r, store_call (FSAread BlkS r h) (snd (fsa_while m L r h p)))"
  by (subst fsa_for.simps) (simp add: Let_def)

lemma fsa_while_frame:
  "st (snd (fsa_while m L r h p)) = st (snd p) \<and>
   sitesInSystem (snd (fsa_while m L r h p)) = sitesInSystem (snd p) \<and>
   truncflag (snd (fsa_while m L r h p)) = truncflag (snd p) \<and>
   statesToKeepIFA (snd (fsa_while m L r h p)) = statesToKeepIFA (snd p) \<and>
   extents (snd (fsa_while m L r h p)) = extents (snd p) \<and>
   resizes (snd (fsa_while m L r h p)) = resizes (snd p)"
proof (induction m L r h p rule: fsa_while.induct)
  case (1 m L r h p)
  show ?case
  proof (cases "fst p \<le> L - r")
    case True
    with "1.IH" show ?thesis by (simp add: fsa_while_enter)
  next
    case False
    then show ?thesis by (simp add: fsa_while_skip)
  qed
qed

lemma fsa_for_frame:
  "st (snd (fsa_for m L r n h p)) = st (snd p) \<and>
   sitesInSystem (snd (fsa_for m L r n h p)) = sitesInSystem (snd p) \<and>
   truncflag (snd (fsa_for m L r n h p)) = truncflag (snd p) \<and>
   statesToKeepIFA (snd (fsa_for m L r n h p)) = statesToKeepIFA (snd p) \<and>
   extents (snd (fsa_for m L r n h p)) = extents (snd p) \<and>
   resizes (snd (fsa_for m L r n h p)) = resizes (snd p)"
proof (induction m L r n h p rule: fsa_for.induct)
  case (1 m L r n h p)
  show ?case
  proof (cases "h < n")
    case True
    with "1.IH" [OF True refl refl refl] show ?thesis
      by (simp add: fsa_for_enter fsa_while_frame)
  next
    case False
    then show ?thesis by (simp add: fsa_for_done)
  qed
qed

lemma fsa_while_truncations:
  "\<exists>N. truncations (snd (fsa_while m L r h p)) =
          truncations (snd p) @ replicate N \<lparr>rho_rows = rows rhoTSR (snd p), requested = m\<rparr> \<and>
        (0 < N \<longrightarrow> fst p \<le> L - r)"
proof (induction m L r h p rule: fsa_while.induct)
  case (1 m L r h p)
  show ?case
  proof (cases "fst p \<le> L - r")
    case True
    from "1.IH" [OF True] obtain N where
      "truncations (snd (fsa_while m L r h (fsa_body m L h p))) =
         truncations (snd (fsa_body m L h p)) @
         replicate N \<lparr>rho_rows = rows rhoTSR (snd (fsa_body m L h p)), requested = m\<rparr>"
      by blast
    then have "truncations (snd (fsa_while m L r h p)) =
         truncations (snd p) @ replicate (Suc N) \<lparr>rho_rows = rows rhoTSR (snd p), requested = m\<rparr>"
      using True by (simp add: fsa_while_enter rows_def)
    with True show ?thesis by blast
  next
    case False
    then have "truncations (snd (fsa_while m L r h p)) =
         truncations (snd p) @ replicate 0 \<lparr>rho_rows = rows rhoTSR (snd p), requested = m\<rparr>"
      by (simp add: fsa_while_skip)
    then show ?thesis by blast
  qed
qed

lemma fsa_for_truncations:
  "\<exists>N. truncations (snd (fsa_for m L r n h p)) =
          truncations (snd p) @ replicate N \<lparr>rho_rows = rows rhoTSR (snd p), requested = m\<rparr> \<and>
        (0 < N \<longrightarrow> fst p \<le> L - r \<or> r \<le> L - r)"
proof (induction m L r n h p rule: fsa_for.induct)
  case (1 m L r n h p)
  show ?case
  proof (cases "h < n")
    case True
    define q where "q = fsa_while m L r h p"
    define p' where "p' = (r, store_call (FSAread BlkS r h) (snd q))"
    obtain N1 where N1:
      "truncations (snd q) =
         truncations (snd p) @ replicate N1 \<lparr>rho_rows = rows rhoTSR (snd p), requested = m\<rparr>"
      "0 < N1 \<longrightarrow> fst p \<le> L - r"
      using fsa_while_truncations [of m L r h p] unfolding q_def by blast
    have rho: "rows rhoTSR (snd p') = rows rhoTSR (snd p)"
      by (simp add: p'_def q_def rows_def fsa_while_frame)
    from "1.IH" [OF True refl refl refl] obtain N2 where N2:
      "truncations (snd (fsa_for m L r n (h + 1) p')) =
         truncations (snd p') @ replicate N2 \<lparr>rho_rows = rows rhoTSR (snd p'), requested = m\<rparr>"
      "0 < N2 \<longrightarrow> fst p' \<le> L - r \<or> r \<le> L - r"
      unfolding p'_def q_def by blast
    have "truncations (snd (fsa_for m L r n h p)) =
         truncations (snd p) @ replicate (N1 + N2) \<lparr>rho_rows = rows rhoTSR (snd p), requested = m\<rparr>"
      using True N1(1) N2(1) rho
      by (simp add: fsa_for_enter p'_def [symmetric] q_def [symmetric] replicate_add)
        (simp add: p'_def)
    moreover have "0 < N1 + N2 \<longrightarrow> fst p \<le> L - r \<or> r \<le> L - r"
      using N1(2) N2(2) by (auto simp: p'_def)
    ultimately show ?thesis by blast
  next
    case False
    then have "truncations (snd (fsa_for m L r n h p)) =
         truncations (snd p) @ replicate 0 \<lparr>rho_rows = rows rhoTSR (snd p), requested = m\<rparr>"
      by (simp add: fsa_for_done)
    then show ?thesis by blast
  qed
qed

lemma fsa_while_store_log:
  "\<exists>es. store_log (snd (fsa_while m L r h p)) = store_log (snd p) @ es \<and>
         (\<forall>e \<in> set es. \<exists>k. e = FSAread BlkE k h \<or> e = FSAwrite k h)"
proof (induction m L r h p rule: fsa_while.induct)
  case (1 m L r h p)
  show ?case
  proof (cases "fst p \<le> L - r")
    case True
    from "1.IH" [OF True] obtain es where
      "store_log (snd (fsa_while m L r h (fsa_body m L h p))) =
         store_log (snd (fsa_body m L h p)) @ es"
      "\<forall>e \<in> set es. \<exists>k. e = FSAread BlkE k h \<or> e = FSAwrite k h"
      by blast
    then have "store_log (snd (fsa_while m L r h p)) =
         store_log (snd p) @ (FSAread BlkE (L - fst p) h # FSAwrite (fst p + 1) h # es) \<and>
       (\<forall>e \<in> set (FSAread BlkE (L - fst p) h # FSAwrite (fst p + 1) h # es).
          \<exists>k. e = FSAread BlkE k h \<or> e = FSAwrite k h)"
      using True by (simp add: fsa_while_enter)
    then show ?thesis by blast
  next
    case False
    then have "store_log (snd (fsa_while m L r h p)) = store_log (snd p) @ []"
      by (simp add: fsa_while_skip)
    then show ?thesis by fastforce
  qed
qed

lemma fsa_for_store_log:
  "\<exists>es. store_log (snd (fsa_for m L r n h p)) = store_log (snd p) @ es"
proof (induction m L r n h p rule: fsa_for.induct)
  case (1 m L r n h p)
  show ?case
  proof (cases "h < n")
    case True
    obtain es1 where "store_log (snd (fsa_while m L r h p)) = store_log (snd p) @ es1"
      using fsa_while_store_log [of m L r h p] by blast
    moreover from "1.IH" [OF True refl refl refl] obtain es2 where
      "store_log (snd (fsa_for m L r n (h + 1)
          (r, store_call (FSAread BlkS r h) (snd (fsa_while m L r h p))))) =
       store_log (snd (r, store_call (FSAread BlkS r h) (snd (fsa_while m L r h p)))) @ es2"
      by blast
    ultimately show ?thesis using True by (simp add: fsa_for_enter)
  next
    case False
    then show ?thesis by (simp add: fsa_for_done)
  qed
qed

lemma fsa_for_idle:
  assumes "\<not> fst p \<le> L - r" "\<not> r \<le> L - r"
  shows "printed (snd (fsa_for m L r n h p)) = printed (snd p) \<and>
         truncations (snd (fsa_for m L r n h p)) = truncations (snd p) \<and>
         store_log (snd (fsa_for m L r n h p)) =
           store_log (snd p) @ map (FSAread BlkS r) [h .. n - 1]"
  using assms
proof (induction m L r n h p rule: fsa_for.induct)
  case (1 m L r n h p)
  show ?case
  proof (cases "h < n")
    case True
    have skip: "fsa_while m L r h p = p"
      using "1.prems"(1) by (rule fsa_while_skip)
    have "[h .. n - 1] = h # [h + 1 .. n - 1]"
      using True by (simp add: upto_rec1)
    with "1.IH" [OF True refl refl refl] "1.prems"(2) True skip show ?thesis
      by (simp add: fsa_for_enter)
  next
    case False
    then show ?thesis by (simp add: fsa_for_done)
  qed
qed

subsection \<open>From the first loop to the sweeps\<close>

lemma calculateMinEnviromentSize_none:
  assumes "m < 2 ^ 31" "\<not> (\<exists>r. 3 \<le> r \<and> r < L \<and> 2 * m \<le> 2 ^ nat r)"
  shows "calculateMinEnviromentSize m L = max 3 L"
proof -
  let ?r = "calculateMinEnviromentSize_loop m L 3"
  have ge: "3 \<le> ?r" by (rule cmes_loop_ge)
  have "\<not> ?r < L"
  proof
    assume lt: "?r < L"
    then have "powf_two_ge ?r m" by (rule cmes_loop_hit)
    with assms(1) ge have "2 * m \<le> 2 ^ nat ?r" by (simp add: powf_two_ge_exact)
    with ge lt assms(2) show False by blast
  qed
  moreover have "?r \<le> L" if "3 \<le> L" using that by (rule cmes_loop_le)
  moreover have "?r = 3" if "L \<le> 3" using that by (rule cmes_loop_past)
  ultimately show ?thesis
    by (cases "3 \<le> L") (auto simp: calculateMinEnviromentSize_def)
qed

lemma after_infinite_store_log:
  "store_log (after_infinite m L) = map ISAwrite [3 .. tdiv2 L + 1]"
proof (cases "2 \<le> tdiv2 L")
  case True
  then show ?thesis
    by (simp add: after_infinite_funpow run_store_log initial_state_def add.commute)
next
  case False
  then show ?thesis
    by (simp add: after_infinite_funpow initial_state_def)
qed

lemma main_unfold:
  "main m L n =
     snd (fsa_for m L (calculateMinEnviromentSize m L) n 0
            (tdiv2 L, store_call (FSAread BlkS (tdiv2 L) 1)
                        (print_line EndOfInfinite (after_infinite m L))))"
  by (simp add: main_def finite_system_def Let_def)



lemma main_truncations:
  "\<exists>N. truncations (main m L n) =
          truncations (after_infinite m L) @
          replicate N \<lparr>rho_rows = rows rhoTSR (after_infinite m L), requested = m\<rparr> \<and>
        (0 < N \<longrightarrow> tdiv2 L \<le> L - calculateMinEnviromentSize m L \<or>
                     calculateMinEnviromentSize m L \<le> L - calculateMinEnviromentSize m L)"
proof -
  define s where "s = store_call (FSAread BlkS (tdiv2 L) 1)
                        (print_line EndOfInfinite (after_infinite m L))"
  have m: "main m L n = snd (fsa_for m L (calculateMinEnviromentSize m L) n 0 (tdiv2 L, s))"
    unfolding s_def by (rule main_unfold)
  have "truncations s = truncations (after_infinite m L)"
    and "rows rhoTSR s = rows rhoTSR (after_infinite m L)"
    by (simp_all add: s_def rows_def)
  with fsa_for_truncations [of m L "calculateMinEnviromentSize m L" n 0 "(tdiv2 L, s)"]
  show ?thesis unfolding m by auto
qed

lemma isa_values_bounded:
  assumes "1 \<le> m" "m < 2 ^ 29"
  shows "0 < st ((isa_step m ^^ k) (initial_state m)) \<and>
         st ((isa_step m ^^ k) (initial_state m)) \<le> max 2 m \<and>
         0 < statesToKeepIFA ((isa_step m ^^ k) (initial_state m)) \<and>
         statesToKeepIFA ((isa_step m ^^ k) (initial_state m)) \<le> max 2 m"
proof -
  define s where "s = (isa_step m ^^ k) (initial_state m)"
  from run_phases [OF assms, where k = k]
  have "(st s = 2 ^ Suc k \<and> statesToKeepIFA s = 2 ^ Suc k \<and> (0 < k \<longrightarrow> 2 ^ Suc k \<le> m)) \<or>
        (st s = m \<and> statesToKeepIFA s = m)"
    unfolding s_def by blast
  then have "0 < st s \<and> st s \<le> max 2 m \<and> 0 < statesToKeepIFA s \<and> statesToKeepIFA s \<le> max 2 m"
    using assms(1) by (cases "k = 0") auto
  then show ?thesis by (simp add: s_def)
qed

lemma isa_values_small:
  assumes "1 \<le> m" "m < 2 ^ 29"
  shows "0 < st ((isa_step m ^^ k) (initial_state m))"
    and "st ((isa_step m ^^ k) (initial_state m)) < 2 ^ 29"
    and "0 < statesToKeepIFA ((isa_step m ^^ k) (initial_state m))"
    and "statesToKeepIFA ((isa_step m ^^ k) (initial_state m)) < 2 ^ 29"
  using isa_values_bounded [OF assms, where k = k] assms(2)
  by (auto simp: max_def split: if_splits)

lemma isa_products_in_range:
  assumes "1 \<le> m" "m < 2 ^ 29"
  shows "int32 (2 * statesToKeepIFA ((isa_step m ^^ k) (initial_state m))) =
           2 * statesToKeepIFA ((isa_step m ^^ k) (initial_state m)) \<and>
         int32 (2 * st ((isa_step m ^^ k) (initial_state m))) =
           2 * st ((isa_step m ^^ k) (initial_state m)) \<and>
         int32 (st ((isa_step m ^^ k) (initial_state m)) * 2) =
           st ((isa_step m ^^ k) (initial_state m)) * 2 \<and>
         st (isa_pin m (isa_truncate (isa_decide m (isa_solve m
               ((isa_step m ^^ k) (initial_state m)))))) =
           st ((isa_step m ^^ Suc k) (initial_state m)) \<and>
         int32 (2 * st ((isa_step m ^^ Suc k) (initial_state m))) =
           2 * st ((isa_step m ^^ Suc k) (initial_state m)) \<and>
         int32 (4 * st ((isa_step m ^^ Suc k) (initial_state m))) =
           4 * st ((isa_step m ^^ Suc k) (initial_state m)) \<and>
         int32 (2 * m) = 2 * m"
proof -
  define s where "s = (isa_step m ^^ k) (initial_state m)"
  have next_s: "(isa_step m ^^ Suc k) (initial_state m) = isa_step m s"
    by (simp add: s_def)
  have pinned: "st (isa_pin m (isa_truncate (isa_decide m (isa_solve m s)))) = st (isa_step m s)"
    by (simp add: isa_step_def)
  have now: "0 < st s" "st s < 2 ^ 29" "0 < statesToKeepIFA s" "statesToKeepIFA s < 2 ^ 29"
    unfolding s_def by (rule isa_values_small [OF assms])+
  have later: "0 < st (isa_step m s)" "st (isa_step m s) < 2 ^ 29"
    unfolding next_s [symmetric] by (rule isa_values_small [OF assms])+
  from now later assms pinned show ?thesis
    unfolding next_s s_def [symmetric] by (simp add: int32_exact)
qed



subsection \<open>A complete run: \<open>m = 2\<close>, eight sites, two half sweeps\<close>

lemma calculateMinEnviromentSize_2_8: "calculateMinEnviromentSize 2 8 = 3"
  by (simp add: calculateMinEnviromentSize_def calculateMinEnviromentSize_loop.simps
        powf_two_ge_def)

lemma tdiv2_8: "tdiv2 8 = 4"
  by (simp add: tdiv2_def)

lemma main_2_8_2_printed:
  "printed (main 2 8 2) =
     [EnergyLine 2 2, EnergyLine 3 3, EnergyLine 4 4, EndOfInfinite,
      EnergyLine 4 4, EnergyLine 5 3, EnergyLine 5 3, EnergyLine 4 4, EnergyLine 3 5]"
  by (simp add: main_unfold calculateMinEnviromentSize_2_8 tdiv2_8 fsa_for_enter fsa_for_done
        fsa_while_enter fsa_while_skip after_infinite_funpow run_printed initial_state_def
        upto_rec1)

lemma main_2_8_2_store_log:
  "store_log (main 2 8 2) =
     [ISAwrite 3, ISAwrite 4, ISAwrite 5, FSAread BlkS 4 1, FSAread BlkE 4 0,
      FSAwrite 5 0, FSAread BlkE 3 0, FSAwrite 6 0, FSAread BlkS 3 0,
      FSAread BlkE 5 1, FSAwrite 4 1, FSAread BlkE 4 1, FSAwrite 5 1,
      FSAread BlkE 3 1, FSAwrite 6 1, FSAread BlkS 3 1]"
  by (simp add: main_unfold calculateMinEnviromentSize_2_8 tdiv2_8 fsa_for_enter fsa_for_done
        fsa_while_enter fsa_while_skip after_infinite_store_log upto_rec1)

lemma main_2_8_2_truncations:
  "truncations (main 2 8 2) =
     truncations (after_infinite 2 8) @
     replicate 5 \<lparr>rho_rows = rows rhoTSR (after_infinite 2 8), requested = 2\<rparr>"
  by (simp add: main_unfold calculateMinEnviromentSize_2_8 tdiv2_8 fsa_for_enter fsa_for_done
        fsa_while_enter fsa_while_skip fsa_while_frame rows_def eval_nat_numeral)

section \<open>The claims\<close>

text \<open>
  C1. For every even chain length \<open>L \<ge> 4\<close> and every \<open>m \<ge> 2\<close> the infinite-system phase
  makes exactly \<open>L/2 - 1\<close> passes: the loop starts with a 2-site block, runs while the block
  size is at most \<open>L/2\<close>, adds one site per pass and prints one energy line per pass, with
  equal left and right site counts. The proof needs \<open>L \<ge> 2\<close> only.
\<close>

theorem infinite_phase_growth_steps:
  assumes "2 \<le> L"
  shows "after_infinite m L = (isa_step m ^^ nat (L div 2 - 1)) (initial_state m) \<and>
         sitesInSystem (initial_state m) = 2 \<and>
         (\<forall>s. infinite_system m L s =
                (if sitesInSystem s \<le> L div 2 then infinite_system m L (isa_step m s) else s)) \<and>
         (\<forall>s. sitesInSystem (isa_step m s) = sitesInSystem s + 1 \<and>
              printed (isa_step m s) =
                printed s @ [EnergyLine (sitesInSystem s) (sitesInSystem s)]) \<and>
         printed (after_infinite m L) = map (\<lambda>j. EnergyLine j j) [2 .. L div 2] \<and>
         length (printed (after_infinite m L)) = nat (L div 2 - 1) \<and>
         sitesInSystem (after_infinite m L) = L div 2 + 1"
proof -
  from assms have half: "tdiv2 L = L div 2" by (simp add: tdiv2_def)
  from assms have one: "1 \<le> L div 2" by simp
  have run: "after_infinite m L = (isa_step m ^^ nat (L div 2 - 1)) (initial_state m)"
    by (simp add: after_infinite_funpow half)
  have loop: "infinite_system m L s =
                (if sitesInSystem s \<le> L div 2 then infinite_system m L (isa_step m s) else s)" for s
    by (subst infinite_system.simps) (simp add: half)
  have lines: "printed (after_infinite m L) = map (\<lambda>j. EnergyLine j j) [2 .. L div 2]"
    unfolding run using one by (simp add: run_printed initial_state_def)
  have count: "length (printed (after_infinite m L)) = nat (L div 2 - 1)"
    unfolding lines using one by simp
  have final: "sitesInSystem (after_infinite m L) = L div 2 + 1"
    unfolding run using one by (simp add: run_sitesInSystem initial_state_def)
  have start: "sitesInSystem (initial_state m) = 2"
    by (simp add: initial_state_def)
  from run start loop lines count final show ?thesis by simp
qed

theorem infinite_phase_growth_steps_witness:
  "(2::int) \<le> 10 \<and>
   printed (after_infinite 8 10) = [EnergyLine 2 2, EnergyLine 3 3, EnergyLine 4 4, EnergyLine 5 5] \<and>
   length (printed (after_infinite 8 10)) = 4 \<and>
   sitesInSystem (after_infinite 8 10) = 6"
proof -
  have h: "(2::int) \<le> 10" by simp
  have range: "[2 .. (5::int)] = [2, 3, 4, 5]" by (simp add: upto_rec1)
  from infinite_phase_growth_steps [OF h, of 8]
  have "printed (after_infinite 8 10) = map (\<lambda>j. EnergyLine j j) [2 .. 10 div 2]"
    and "length (printed (after_infinite 8 10)) = nat (10 div 2 - 1)"
    and "sitesInSystem (after_infinite 8 10) = 10 div 2 + 1"
    by blast+
  then show ?thesis by (simp add: range)
qed

text \<open>
  C2. As stated (for every \<open>m \<ge> 1\<close> and every chain length the result \<open>r\<close> has
  \<open>2 ^ r \<ge> 2 m\<close>, \<open>2 ^ (r - 1) < 2 m\<close> and \<open>3 \<le> r < L\<close>) the claim fails: the counter starts
  at 3, so for \<open>m = 1\<close> and \<open>L = 10\<close> the result is 3 although \<open>2 ^ 2 \<ge> 2\<close>.
\<close>

theorem calculateMinEnviromentSize_claim_counterexample:
  "\<not> (2 * 1 \<le> (2::int) ^ nat (calculateMinEnviromentSize 1 10) \<and>
       (2::int) ^ nat (calculateMinEnviromentSize 1 10 - 1) < 2 * 1 \<and>
       3 \<le> calculateMinEnviromentSize 1 10 \<and> calculateMinEnviromentSize 1 10 < 10)"
proof -
  have "calculateMinEnviromentSize 1 10 = 3"
    by (simp add: calculateMinEnviromentSize_def calculateMinEnviromentSize_loop.simps
          powf_two_ge_def)
  then show ?thesis by simp
qed

text \<open>
  C2, amended. For a 32-bit \<open>m\<close> the function returns the least \<open>r \<ge> 3\<close> with
  \<open>2 ^ r \<ge> 2 m\<close> when such an \<open>r\<close> exists below \<open>L\<close>, and \<open>max 3 L\<close> otherwise. When \<open>m \<ge> 3\<close>
  and some \<open>k\<close> with \<open>3 \<le> k < L\<close> has \<open>2 ^ k \<ge> 2 m\<close>, the result satisfies
  \<open>2 ^ r \<ge> 2 m\<close>, \<open>2 ^ (r - 1) < 2 m\<close> and \<open>3 \<le> r < L\<close>.
\<close>

theorem calculateMinEnviromentSize_least:
  assumes "m < 2 ^ 31"
  shows "3 \<le> calculateMinEnviromentSize m L \<and> calculateMinEnviromentSize m L \<le> max 3 L \<and>
    (calculateMinEnviromentSize m L < L \<longrightarrow> 2 * m \<le> 2 ^ nat (calculateMinEnviromentSize m L)) \<and>
    (\<forall>k. 3 \<le> k \<and> k < calculateMinEnviromentSize m L \<longrightarrow> 2 ^ nat k < 2 * m) \<and>
    ((\<exists>k. 3 \<le> k \<and> k < L \<and> 2 * m \<le> 2 ^ nat k) \<longrightarrow> calculateMinEnviromentSize m L < L) \<and>
    (3 \<le> m \<and> (\<exists>k. 3 \<le> k \<and> k < L \<and> 2 * m \<le> 2 ^ nat k) \<longrightarrow>
       2 * m \<le> 2 ^ nat (calculateMinEnviromentSize m L) \<and>
       2 ^ nat (calculateMinEnviromentSize m L - 1) < 2 * m \<and>
       3 \<le> calculateMinEnviromentSize m L \<and> calculateMinEnviromentSize m L < L)"
proof -
  define r where "r = calculateMinEnviromentSize m L"
  have r_loop: "r = calculateMinEnviromentSize_loop m L 3"
    by (simp add: r_def calculateMinEnviromentSize_def)
  have ge3: "3 \<le> r"
    unfolding r_loop by (rule cmes_loop_ge)
  have le_max: "r \<le> max 3 L"
  proof (cases "3 \<le> L")
    case True
    then show ?thesis unfolding r_loop using cmes_loop_le [of 3 L m] by simp
  next
    case False
    then show ?thesis unfolding r_loop using cmes_loop_past [of L 3 m] by simp
  qed
  have hit: "2 * m \<le> 2 ^ nat r" if "r < L"
    using that cmes_loop_hit [of m L 3] ge3 powf_two_ge_exact [OF assms, of r]
    unfolding r_loop by simp
  have least: "2 ^ nat k < 2 * m" if "3 \<le> k" "k < r" for k
    using that cmes_loop_least [of 3 k m L] powf_two_ge_exact [OF assms, of k]
    unfolding r_loop by simp
  have found: "r < L" if "3 \<le> k" "k < L" "2 * m \<le> 2 ^ nat k" for k
  proof -
    from that assms have "powf_two_ge k m" by (simp add: powf_two_ge_exact)
    with that have "r \<le> k" unfolding r_loop by (intro cmes_loop_found)
    with that show ?thesis by simp
  qed
  have below: "2 ^ nat (r - 1) < 2 * m" if "3 \<le> m"
  proof (cases "r = 3")
    case True
    with that show ?thesis by simp
  next
    case False
    with ge3 have "3 \<le> r - 1" "r - 1 < r" by simp_all
    then show ?thesis by (rule least)
  qed
  show ?thesis
    unfolding r_def [symmetric]
    using ge3 le_max hit least found below by blast
qed

theorem calculateMinEnviromentSize_least_witness:
  "(8::int) < 2 ^ 31 \<and> calculateMinEnviromentSize 8 10 = 4 \<and> (4::int) < 10 \<and>
   (2 * 8 \<le> (2::int) ^ nat 4) \<and> (3 \<le> (3::int) \<and> (3::int) < 4 \<and> (2::int) ^ nat 3 < 2 * 8) \<and>
   (3 \<le> (5::int) \<and> (5::int) < 10 \<and> 2 * 8 \<le> (2::int) ^ nat 5) \<and> (3::int) \<le> 8"
proof -
  have h: "(8::int) < 2 ^ 31" by simp
  have v: "calculateMinEnviromentSize 8 10 = 4"
    by (simp add: calculateMinEnviromentSize_def calculateMinEnviromentSize_loop.simps
          powf_two_ge_def)
  show ?thesis
    using calculateMinEnviromentSize_least [OF h, of 10] v by simp
qed

text \<open>
  C3. As stated (the values of \<^verbatim>\<open>statesToKeepIFA\<close> never decrease and never exceed \<open>m\<close>) the
  claim fails for \<open>m = 1\<close>: the variable starts at 2, above \<open>m\<close>, and the first pass sets it
  to 1.
\<close>

theorem statesToKeepIFA_ramp_counterexample:
  "statesToKeepIFA (initial_state 1) = 2 \<and> statesToKeepIFA (after_infinite 1 4) = 1 \<and>
   \<not> (statesToKeepIFA (initial_state 1) \<le> 1 \<and>
       statesToKeepIFA (initial_state 1) \<le> statesToKeepIFA (after_infinite 1 4))"
proof -
  have "tdiv2 4 = 2" by (simp add: tdiv2_def)
  then have "after_infinite 1 4 = isa_step 1 (initial_state 1)"
    by (simp add: after_infinite_funpow)
  then show ?thesis by (simp add: isa_step_keep initial_state_def int32_def)
qed

text \<open>
  C3, amended. For \<open>2 \<le> m < 2 ^ 29\<close> (where the product \<^verbatim>\<open>2*statesToKeepIFA\<close> cannot leave
  the 32-bit range) \<^verbatim>\<open>statesToKeepIFA\<close> starts at 2 and every pass of the infinite-system
  loop sets it to \<open>min (2 * statesToKeepIFA) m\<close>; its value after \<open>k\<close> passes is
  \<open>min (2 ^ (k + 1)) m\<close>, so the sequence never decreases, never exceeds \<open>m\<close> and stays at
  \<open>m\<close> once it is there.
\<close>

theorem statesToKeepIFA_ramp:
  assumes "2 \<le> m" "m < 2 ^ 29"
  shows "statesToKeepIFA (initial_state m) = 2 \<and>
         (\<forall>k. statesToKeepIFA ((isa_step m ^^ Suc k) (initial_state m)) =
                min (2 * statesToKeepIFA ((isa_step m ^^ k) (initial_state m))) m \<and>
              statesToKeepIFA ((isa_step m ^^ k) (initial_state m)) = min (2 ^ Suc k) m \<and>
              statesToKeepIFA ((isa_step m ^^ k) (initial_state m)) \<le>
                statesToKeepIFA ((isa_step m ^^ Suc k) (initial_state m)) \<and>
              statesToKeepIFA ((isa_step m ^^ k) (initial_state m)) \<le> m \<and>
              (statesToKeepIFA ((isa_step m ^^ k) (initial_state m)) = m \<longrightarrow>
               statesToKeepIFA ((isa_step m ^^ Suc k) (initial_state m)) = m)) \<and>
         statesToKeepIFA (after_infinite m L) = min (2 ^ Suc (nat (tdiv2 L - 1))) m"
proof -
  have start: "statesToKeepIFA (initial_state m) = 2"
    by (simp add: initial_state_def)
  have closed: "statesToKeepIFA ((isa_step m ^^ k) (initial_state m)) = min (2 ^ Suc k) m" for k
    using assms by (rule run_statesToKeepIFA)
  have doubling: "min (2 * p) m \<le> min (2 * (2 * p)) m \<and>
                  (min (2 * p) m = m \<longrightarrow> min (2 * (2 * p)) m = m) \<and>
                  min (2 * (2 * p)) m = min (2 * min (2 * p) m) m" if "0 < p" for p :: int
    using that assms(1) by (simp add: min_def)
  have update: "min (2 ^ Suc (Suc k)) m = min (2 * min (2 ^ Suc k) m) m" for k
    using doubling [of "2 ^ k"] by simp
  have mono: "min (2 ^ Suc k) m \<le> min (2 ^ Suc (Suc k)) m" for k
    using doubling [of "2 ^ k"] assms(1) by simp
  have stay: "min (2 ^ Suc k) m = m \<longrightarrow> min (2 ^ Suc (Suc k)) m = m" for k
    using doubling [of "2 ^ k"] assms(1) by simp
  have final: "statesToKeepIFA (after_infinite m L) = min (2 ^ Suc (nat (tdiv2 L - 1))) m"
    unfolding after_infinite_funpow by (rule closed)
  show ?thesis
    unfolding closed using start update mono stay final by simp
qed

theorem statesToKeepIFA_ramp_witness:
  "(2::int) \<le> 8 \<and> (8::int) < 2 ^ 29 \<and>
   statesToKeepIFA ((isa_step 8 ^^ 0) (initial_state 8)) = 2 \<and>
   statesToKeepIFA ((isa_step 8 ^^ 1) (initial_state 8)) = 4 \<and>
   statesToKeepIFA ((isa_step 8 ^^ 2) (initial_state 8)) = 8 \<and>
   statesToKeepIFA ((isa_step 8 ^^ 3) (initial_state 8)) = 8 \<and>
   statesToKeepIFA (after_infinite 8 10) = 8"
proof -
  have h: "(2::int) \<le> 8" and b: "(8::int) < 2 ^ 29" by simp_all
  have half: "tdiv2 10 = 5" by (simp add: tdiv2_def)
  from statesToKeepIFA_ramp [OF h b, of 10]
  have run: "statesToKeepIFA ((isa_step 8 ^^ k) (initial_state 8)) = min (2 ^ Suc k) 8"
    and final: "statesToKeepIFA (after_infinite 8 10) = min (2 ^ Suc (nat (tdiv2 10 - 1))) 8"
    for k
    by blast+
  from run [of 0] run [of 1] run [of 2] run [of 3] final show ?thesis
    by (simp add: half)
qed




text \<open>
  C5. Every pass of the finite-system sweep calls the truncation routine with \<open>m\<close>: the calls
  that \<^verbatim>\<open>main\<close> adds after the infinite-system phase all request \<open>m\<close> states, in every half
  sweep and for every system size.
\<close>

theorem finite_sweep_keeps_m:
  "(\<forall>h p. truncations (snd (fsa_body m L h p)) =
            truncations (snd p) @ [\<lparr>rho_rows = rows rhoTSR (snd p), requested = m\<rparr>]) \<and>
   (\<exists>N. truncations (main m L n) =
           truncations (after_infinite m L) @
           replicate N \<lparr>rho_rows = rows rhoTSR (after_infinite m L), requested = m\<rparr>)"
  using main_truncations [of m L n] by auto

theorem finite_sweep_keeps_m_witness:
  "\<exists>N. 0 < N \<and>
     truncations (main 2 8 2) =
       truncations (after_infinite 2 8) @
       replicate N \<lparr>rho_rows = rows rhoTSR (after_infinite 2 8), requested = 2\<rparr>"
proof -
  from finite_sweep_keeps_m [of 2 8 2] obtain N where
    "truncations (main 2 8 2) =
       truncations (after_infinite 2 8) @
       replicate N \<lparr>rho_rows = rows rhoTSR (after_infinite 2 8), requested = 2\<rparr>"
    by blast
  moreover from this have "N = 5"
    using main_2_8_2_truncations by (simp add: replicate_eq_replicate)
  ultimately show ?thesis by auto
qed



text \<open>
  C7. When no integer \<open>r\<close> with \<open>3 \<le> r < L\<close> has \<open>2 ^ r \<ge> 2 m\<close>, the environment size is
  \<open>max 3 L\<close>, the inner loop of every half sweep is left at once, the finite-system part
  prints nothing and calls neither the truncation routine nor \<^verbatim>\<open>FSAwrite\<close>; the run ends
  after one \<^verbatim>\<open>FSAread\<close> per half sweep. (\<open>m < 2 ^ 31\<close> is the range of a C++ \<^verbatim>\<open>int\<close>, and
  for \<open>L \<ge> - (2 ^ 31) + 3\<close> the guard \<^verbatim>\<open>numberOfSites-minEnviromentSize\<close> does not overflow;
  all loops of the model are total functions.)
\<close>

theorem no_environment_size_no_sweep:
  assumes "m < 2 ^ 31" "- (2 ^ 31) + 3 \<le> L"
    and "\<not> (\<exists>r. 3 \<le> r \<and> r < L \<and> 2 * m \<le> 2 ^ nat r)"
  shows "calculateMinEnviromentSize m L = max 3 L \<and>
         (\<forall>h s. fsa_while m L (max 3 L) h (tdiv2 L, s) = (tdiv2 L, s) \<and>
                fsa_while m L (max 3 L) h (max 3 L, s) = (max 3 L, s)) \<and>
         printed (main m L n) = printed (after_infinite m L) @ [EndOfInfinite] \<and>
         truncations (main m L n) = truncations (after_infinite m L) \<and>
         store_log (main m L n) =
           store_log (after_infinite m L) @
           FSAread BlkS (tdiv2 L) 1 # map (FSAread BlkS (max 3 L)) [0 .. n - 1]"
proof -
  have r: "calculateMinEnviromentSize m L = max 3 L"
    using assms(1,3) by (rule calculateMinEnviromentSize_none)
  have first: "\<not> tdiv2 L \<le> L - max 3 L"
    by (simp add: tdiv2_def max_def) linarith
  have later: "\<not> max 3 L \<le> L - max 3 L"
    by (simp add: max_def)
  have idle: "fsa_while m L (max 3 L) h (tdiv2 L, s) = (tdiv2 L, s) \<and>
              fsa_while m L (max 3 L) h (max 3 L, s) = (max 3 L, s)" for h s
    using first later by (simp add: fsa_while_skip)
  define s where "s = store_call (FSAread BlkS (tdiv2 L) 1)
                        (print_line EndOfInfinite (after_infinite m L))"
  have m: "main m L n = snd (fsa_for m L (max 3 L) n 0 (tdiv2 L, s))"
    unfolding s_def by (simp add: main_unfold r)
  from first have "\<not> fst (tdiv2 L, s) \<le> L - max 3 L" by simp
  from fsa_for_idle [OF this later, of m n 0]
  have "printed (main m L n) = printed (after_infinite m L) @ [EndOfInfinite]"
    and "truncations (main m L n) = truncations (after_infinite m L)"
    and "store_log (main m L n) =
           store_log (after_infinite m L) @
           FSAread BlkS (tdiv2 L) 1 # map (FSAread BlkS (max 3 L)) [0 .. n - 1]"
    unfolding m by (simp_all add: s_def)
  with r idle show ?thesis by blast
qed

theorem no_environment_size_no_sweep_witness:
  "(16::int) < 2 ^ 31 \<and> - (2 ^ 31) + 3 \<le> (4::int) \<and>
   \<not> (\<exists>r::int. 3 \<le> r \<and> r < 4 \<and> 2 * 16 \<le> (2::int) ^ nat r) \<and>
   calculateMinEnviromentSize 16 4 = 4 \<and>
   printed (main 16 4 3) = printed (after_infinite 16 4) @ [EndOfInfinite] \<and>
   truncations (main 16 4 3) = truncations (after_infinite 16 4) \<and>
   store_log (main 16 4 3) =
     store_log (after_infinite 16 4) @
     [FSAread BlkS 2 1, FSAread BlkS 4 0, FSAread BlkS 4 1, FSAread BlkS 4 2]"
proof -
  have h1: "(16::int) < 2 ^ 31" and h0: "- (2 ^ 31) + 3 \<le> (4::int)" by simp_all
  have h2: "\<not> (\<exists>r::int. 3 \<le> r \<and> r < 4 \<and> 2 * 16 \<le> (2::int) ^ nat r)"
  proof
    assume "\<exists>r::int. 3 \<le> r \<and> r < 4 \<and> 2 * 16 \<le> (2::int) ^ nat r"
    then obtain r :: int where "3 \<le> r" "r < 4" and big: "2 * 16 \<le> (2::int) ^ nat r"
      by blast
    then have "r = 3" by simp
    with big show False by simp
  qed
  have half: "tdiv2 4 = 2" by (simp add: tdiv2_def)
  have sweeps: "[0 .. (2::int)] = [0, 1, 2]" by (simp add: upto_rec1)
  from no_environment_size_no_sweep [OF h1 h0 h2, of 3] h1 h2 show ?thesis
    by (simp add: half sweeps)
qed

text \<open>
  C8. With \<^verbatim>\<open>numberOfHalfSweeps = 0\<close> the finite-system part performs no write to the block
  store: after the infinite-system phase the only call is the read \<^verbatim>\<open>blkS.FSAread(L/2, 1)\<close>,
  and the persisted blocks at the end of the program are those the \<^verbatim>\<open>ISAwrite\<close> calls of
  the infinite-system phase left.
\<close>

theorem zero_half_sweeps_store_unchanged:
  "store_log (main m L 0) = store_log (after_infinite m L) @ [FSAread BlkS (tdiv2 L) 1] \<and>
   persisted (store_log (main m L 0)) = persisted (store_log (after_infinite m L)) \<and>
   persisted (store_log (after_infinite m L)) = map ISAwrite [3 .. tdiv2 L + 1]"
proof -
  have log: "store_log (main m L 0) = store_log (after_infinite m L) @ [FSAread BlkS (tdiv2 L) 1]"
    by (simp add: main_unfold fsa_for_done)
  have "filter is_write (map ISAwrite ks) = map ISAwrite ks" for ks
    by (induction ks) simp_all
  then have "persisted (store_log (after_infinite m L)) = map ISAwrite [3 .. tdiv2 L + 1]"
    by (simp add: persisted_def after_infinite_store_log)
  with log show ?thesis by (simp add: persisted_def)
qed

text \<open>
  C9. \<^verbatim>\<open>truncflag\<close> starts at 0 and is assigned in three places of the loop body. At the head
  of a pass it is 0, 3 or 4; after the truncation decision it is 0, 1, 3 or 4; after the
  pinning 0, 2, 3 or 4; after the operator block 0, 3 or 4. Each of the three places leaves
  it or adds one, nothing else changes it, 4 stays 4, and all five values occur in a run.
\<close>

theorem truncflag_range_and_steps:
  "(let s = (isa_step m ^^ k) (initial_state m);
        a = isa_decide m (isa_solve m s);
        b = isa_pin m (isa_truncate a);
        c = isa_operators m (isa_rebuild b)
    in truncflag (initial_state m) = 0 \<and>
       truncflag s \<in> {0, 3, 4} \<and> truncflag a \<in> {0, 1, 3, 4} \<and>
       truncflag b \<in> {0, 2, 3, 4} \<and> truncflag c \<in> {0, 3, 4} \<and>
       truncflag (isa_solve m s) = truncflag s \<and>
       (truncflag a = truncflag s \<or> truncflag a = truncflag s + 1) \<and>
       truncflag (isa_truncate a) = truncflag a \<and>
       (truncflag b = truncflag a \<or> truncflag b = truncflag a + 1) \<and>
       truncflag (isa_rebuild b) = truncflag b \<and>
       (truncflag c = truncflag b \<or> truncflag c = truncflag b + 1) \<and>
       truncflag (isa_step m s) = truncflag c \<and>
       (truncflag s = 4 \<longrightarrow> truncflag a = 4 \<and> truncflag b = 4 \<and> truncflag c = 4)) \<and>
   (\<forall>h p. truncflag (snd (fsa_body m L h p)) = truncflag (snd p)) \<and>
   truncflag (main m L n) = truncflag (after_infinite m L) \<and>
   (\<exists>m' s. s = initial_state m' \<and> truncflag s = 0 \<and>
      truncflag (isa_decide m' (isa_solve m' s)) = 1 \<and>
      truncflag (isa_pin m' (isa_truncate (isa_decide m' (isa_solve m' s)))) = 2 \<and>
      truncflag (isa_step m' s) = 3 \<and> truncflag (isa_step m' (isa_step m' s)) = 4)"
proof -
  have reach: "\<exists>m' s. s = initial_state m' \<and> truncflag s = 0 \<and>
      truncflag (isa_decide m' (isa_solve m' s)) = 1 \<and>
      truncflag (isa_pin m' (isa_truncate (isa_decide m' (isa_solve m' s)))) = 2 \<and>
      truncflag (isa_step m' s) = 3 \<and> truncflag (isa_step m' (isa_step m' s)) = 4"
  proof (intro exI conjI)
    show "initial_state 2 = initial_state 2" ..
    show zero: "truncflag (initial_state 2) = 0" by (simp add: initial_state_def)
    have c: "truncflag (initial_state 2) = 0" "(2::int) < 2 * st (initial_state 2)"
      "0 < st (initial_state 2)" "st (initial_state 2) < 2 ^ 30" "(1::int) \<le> 2"
      "(2::int) < 2 ^ 29"
      by (simp_all add: initial_state_def)
    from c show "truncflag (isa_decide 2 (isa_solve 2 (initial_state 2))) = 1"
      by (rule isa_step_first_truncation)
    from c
    show "truncflag (isa_pin 2 (isa_truncate (isa_decide 2 (isa_solve 2 (initial_state 2))))) = 2"
      by (rule isa_step_first_truncation)
    from c show three: "truncflag (isa_step 2 (initial_state 2)) = 3"
      by (rule isa_step_first_truncation)
    from c have "st (isa_step 2 (initial_state 2)) = 2"
      by (rule isa_step_first_truncation)
    with three show "truncflag (isa_step 2 (isa_step 2 (initial_state 2))) = 4"
      by (simp add: isa_step_truncflag int32_def)
  qed
  define s where "s = (isa_step m ^^ k) (initial_state m)"
  have head: "truncflag s = 0 \<or> truncflag s = 3 \<or> truncflag s = 4"
    using run_truncflag [where m = m and k = k] by (simp add: s_def)
  have sweeps: "truncflag (main m L n) = truncflag (after_infinite m L)"
    by (simp add: main_unfold fsa_for_frame)
  from head have
    "truncflag (initial_state m) = 0 \<and>
     truncflag s \<in> {0, 3, 4} \<and>
     truncflag (isa_decide m (isa_solve m s)) \<in> {0, 1, 3, 4} \<and>
     truncflag (isa_pin m (isa_truncate (isa_decide m (isa_solve m s)))) \<in> {0, 2, 3, 4} \<and>
     truncflag (isa_operators m (isa_rebuild (isa_pin m (isa_truncate
        (isa_decide m (isa_solve m s)))))) \<in> {0, 3, 4} \<and>
     truncflag (isa_solve m s) = truncflag s \<and>
     (truncflag (isa_decide m (isa_solve m s)) = truncflag s \<or>
      truncflag (isa_decide m (isa_solve m s)) = truncflag s + 1) \<and>
     truncflag (isa_truncate (isa_decide m (isa_solve m s))) =
       truncflag (isa_decide m (isa_solve m s)) \<and>
     (truncflag (isa_pin m (isa_truncate (isa_decide m (isa_solve m s)))) =
        truncflag (isa_decide m (isa_solve m s)) \<or>
      truncflag (isa_pin m (isa_truncate (isa_decide m (isa_solve m s)))) =
        truncflag (isa_decide m (isa_solve m s)) + 1) \<and>
     truncflag (isa_rebuild (isa_pin m (isa_truncate (isa_decide m (isa_solve m s))))) =
       truncflag (isa_pin m (isa_truncate (isa_decide m (isa_solve m s)))) \<and>
     (truncflag (isa_operators m (isa_rebuild (isa_pin m (isa_truncate
         (isa_decide m (isa_solve m s)))))) =
        truncflag (isa_pin m (isa_truncate (isa_decide m (isa_solve m s)))) \<or>
      truncflag (isa_operators m (isa_rebuild (isa_pin m (isa_truncate
         (isa_decide m (isa_solve m s)))))) =
        truncflag (isa_pin m (isa_truncate (isa_decide m (isa_solve m s)))) + 1) \<and>
     truncflag (isa_step m s) =
       truncflag (isa_operators m (isa_rebuild (isa_pin m (isa_truncate
         (isa_decide m (isa_solve m s)))))) \<and>
     (truncflag s = 4 \<longrightarrow>
        truncflag (isa_decide m (isa_solve m s)) = 4 \<and>
        truncflag (isa_pin m (isa_truncate (isa_decide m (isa_solve m s)))) = 4 \<and>
        truncflag (isa_operators m (isa_rebuild (isa_pin m (isa_truncate
          (isa_decide m (isa_solve m s)))))) = 4)"
    by (auto simp: isa_step_def isa_decide_def isa_pin_def isa_operators_def initial_state_def)
  with sweeps reach show ?thesis
    by (simp add: Let_def s_def)
qed

theorem truncflag_range_and_steps_witness:
  "truncflag ((isa_step 2 ^^ 2) (initial_state 2)) = 4 \<and>
   truncflag (isa_decide 2 (isa_solve 2 ((isa_step 2 ^^ 2) (initial_state 2)))) = 4 \<and>
   truncflag (isa_step 2 ((isa_step 2 ^^ 2) (initial_state 2))) = 4"
proof -
  have c: "truncflag (initial_state 2) = 0" "(2::int) < 2 * st (initial_state 2)"
    "0 < st (initial_state 2)" "st (initial_state 2) < 2 ^ 30" "(1::int) \<le> 2"
    "(2::int) < 2 ^ 29"
    by (simp_all add: initial_state_def)
  have three: "truncflag (isa_step 2 (initial_state 2)) = 3"
    using c by (rule isa_step_first_truncation)
  have "st (isa_step 2 (initial_state 2)) = 2"
    using c by (rule isa_step_first_truncation)
  with three have four: "truncflag ((isa_step 2 ^^ 2) (initial_state 2)) = 4"
    by (simp add: isa_step_truncflag numeral_2_eq_2 int32_def)
  from truncflag_range_and_steps [where m = 2 and k = 2] four show ?thesis
    by (simp add: Let_def)
qed

text \<open>
  C10. For every input the program reads the half-chain block with sweep index 1
  (\<^verbatim>\<open>blkS.FSAread(L/2, 1)\<close>) exactly once between the two phases: when the half-sweep loop is
  entered the calls to the block store so far are the \<^verbatim>\<open>ISAwrite\<close> calls of the
  infinite-system phase followed by this one read, so no \<^verbatim>\<open>FSAwrite\<close> precedes it.
\<close>

theorem half_chain_read_between_phases:
  "main m L n =
     snd (fsa_for m L (calculateMinEnviromentSize m L) n 0
            (tdiv2 L, store_call (FSAread BlkS (tdiv2 L) 1)
                        (print_line EndOfInfinite (after_infinite m L)))) \<and>
   store_log (store_call (FSAread BlkS (tdiv2 L) 1)
                (print_line EndOfInfinite (after_infinite m L))) =
     map ISAwrite [3 .. tdiv2 L + 1] @ [FSAread BlkS (tdiv2 L) 1] \<and>
   (\<exists>es. store_log (main m L n) =
           map ISAwrite [3 .. tdiv2 L + 1] @ FSAread BlkS (tdiv2 L) 1 # es)"
proof -
  define s where "s = store_call (FSAread BlkS (tdiv2 L) 1)
                        (print_line EndOfInfinite (after_infinite m L))"
  have m: "main m L n = snd (fsa_for m L (calculateMinEnviromentSize m L) n 0 (tdiv2 L, s))"
    unfolding s_def by (rule main_unfold)
  have log: "store_log s = map ISAwrite [3 .. tdiv2 L + 1] @ [FSAread BlkS (tdiv2 L) 1]"
    by (simp add: s_def after_infinite_store_log)
  obtain es where "store_log (main m L n) = store_log s @ es"
    unfolding m using fsa_for_store_log [of m L _ n 0 "(tdiv2 L, s)"] by auto
  with log have "\<exists>es. store_log (main m L n) =
           map ISAwrite [3 .. tdiv2 L + 1] @ FSAread BlkS (tdiv2 L) 1 # es"
    by simp
  with m log show ?thesis unfolding s_def by blast
qed

theorem half_chain_read_between_phases_witness:
  "\<exists>es. store_log (main 2 8 2) =
          [ISAwrite 3, ISAwrite 4, ISAwrite 5] @ FSAread BlkS 4 1 # es \<and> length es = 12"
proof -
  have range: "[3 .. (5::int)] = [3, 4, 5]" by (simp add: upto_rec1)
  from half_chain_read_between_phases [of 2 8 2] obtain es where
    "store_log (main 2 8 2) = map ISAwrite [3 .. tdiv2 8 + 1] @ FSAread BlkS (tdiv2 8) 1 # es"
    by blast
  then have log: "store_log (main 2 8 2) = [ISAwrite 3, ISAwrite 4, ISAwrite 5] @ FSAread BlkS 4 1 # es"
    by (simp add: tdiv2_8 range)
  with main_2_8_2_store_log have "length es = 12" by simp
  with log show ?thesis by blast
qed

end
